theory Spec2Isabelle
  imports Main "HOL-Library.Sublist" "HOL-Library.Char_ord" "HOL-Library.List_Lexorder"
    "HOL-Library.AList" "HOL-Library.Word"
begin

unbundle bit_operations_syntax

section \<open>Python strings and numbers\<close>

text \<open>
  A Python \<open>str\<close> is modelled as a \<open>string\<close>, one \<open>char\<close> per code point, which covers
  the code points U+0000 to U+00FF. Upper-casing leaves that range (U+00FF becomes U+0178)
  and can lengthen the string (U+00DF becomes SS), so an upper-cased string is the list of
  its code points.
\<close>

definition digit_char :: "nat \<Rightarrow> char" where
  "digit_char d = char_of (48 + d)"

text \<open>\<open>str(n)\<close> for a non-negative integer: its decimal digits, most significant first.\<close>

fun str_nat :: "nat \<Rightarrow> string" where
  "str_nat n = (if n < 10 then [digit_char n] else str_nat (n div 10) @ [digit_char (n mod 10)])"

declare str_nat.simps [simp del]

text \<open>\<open>str(i)\<close> for a Python \<open>int\<close>.\<close>

definition str_int :: "int \<Rightarrow> string" where
  "str_int i = (if i < 0 then CHR ''-'' # str_nat (nat (- i)) else str_nat (nat i))"

text \<open>The format specification \<open>{n:0wd}\<close> for a non-negative \<open>n\<close>: zero padding to width \<open>w\<close>.\<close>

definition zero_pad :: "nat \<Rightarrow> nat \<Rightarrow> string" where
  "zero_pad w n = replicate (w - length (str_nat n)) CHR ''0'' @ str_nat n"

text \<open>\<open>str.isspace\<close> on one character of the range U+0000 to U+00FF.\<close>

definition py_isspace :: "char \<Rightarrow> bool" where
  "py_isspace c = (of_char c \<in> {9, 10, 11, 12, 13, 28, 29, 30, 31, 32, 133, 160 :: nat})"

text \<open>\<open>s.strip()\<close>\<close>

definition strip :: "string \<Rightarrow> string" where
  "strip s = rev (dropWhile py_isspace (rev (dropWhile py_isspace s)))"

text \<open>The code points of a string.\<close>

definition code_points :: "string \<Rightarrow> nat list" where
  "code_points s = map of_char s"

text \<open>
  \<open>c.upper()\<close> for one character of the range U+0000 to U+00FF, as code points: the letters
  a to z and U+00E0 to U+00FE (but for the division sign U+00F7) move down by 32, the micro
  sign U+00B5 becomes the Greek capital U+039C, the sharp s U+00DF becomes the two letters
  SS, U+00FF becomes U+0178, and every other character stays.
\<close>

definition upper_char :: "char \<Rightarrow> nat list" where
  "upper_char c =
     (let n = (of_char c :: nat) in
      if 97 \<le> n \<and> n \<le> 122 then [n - 32]
      else if n = 181 then [924]
      else if n = 223 then [83, 83]
      else if 224 \<le> n \<and> n \<le> 254 \<and> n \<noteq> 247 then [n - 32]
      else if n = 255 then [376]
      else [n])"

text \<open>\<open>s.upper()\<close>\<close>

definition upper :: "string \<Rightarrow> nat list" where
  "upper s = concat (map upper_char s)"

text \<open>\<open>s.split(sep)\<close> for a separator of one character: never empty, \<open>''''.split(sep) = ['''']\<close>.\<close>

fun split_on :: "char \<Rightarrow> string \<Rightarrow> string list" where
  "split_on sep [] = [[]]"
| "split_on sep (c # cs) =
     (if c = sep then [] # split_on sep cs
      else (case split_on sep cs of [] \<Rightarrow> [[c]] | l # ls \<Rightarrow> (c # l) # ls))"

definition newline :: char where
  "newline = char_of (10 :: nat)"

text \<open>\<open>needle in haystack\<close> on strings, and on their code points\<close>

abbreviation py_in :: "'a list \<Rightarrow> 'a list \<Rightarrow> bool" where
  "py_in needle haystack \<equiv> sublist needle haystack"

text \<open>Decimal digits, and the number a string of decimal digits denotes.\<close>

definition is_digit :: "char \<Rightarrow> bool" where
  "is_digit c = (CHR ''0'' \<le> c \<and> c \<le> CHR ''9'')"

definition digits_value :: "string \<Rightarrow> nat" where
  "digits_value s = foldl (\<lambda>a c. 10 * a + (of_char c - 48)) 0 s"

section \<open>Task extraction (scripts/extract\_tasks.py)\<close>

text \<open>
  The transcript document: the two keys the extractor reads, each possibly missing
  (\<open>dict.get\<close> with a default).
\<close>

record transcript_data =
  meeting_id :: "string option"
  transcript :: "string option"

text \<open>A task dictionary; its keys are the field names without the prefix.\<close>

record task =
  task_id :: string
  task_agent :: string
  task_repo :: string
  task_title :: string
  task_description :: string
  task_priority :: string
  task_type :: string
  task_labels :: "string list"
  task_explicit :: bool

definition action_keywords :: "string list" where
  "action_keywords = [''TODO'', ''ACTION ITEM'', ''TASK'', ''NEED TO'', ''SHOULD'',
     ''UPDATE'', ''FIX'', ''IMPLEMENT'', ''CREATE'', ''ADD'']"

text \<open>The test of the loop body: \<open>any(keyword in line_upper for keyword in action_keywords)\<close>.\<close>

definition is_action_line :: "string \<Rightarrow> bool" where
  "is_action_line line = (let line_upper = upper line in
     list_ex (\<lambda>keyword. py_in (code_points keyword) line_upper) action_keywords)"

text \<open>The dictionary built for a matching line.\<close>

definition make_task :: "string \<Rightarrow> nat \<Rightarrow> string \<Rightarrow> task" where
  "make_task mid task_id_counter line =
     \<lparr> task_id = mid @ ''_TASK_'' @ zero_pad 3 task_id_counter,
       task_agent = ''A-01'',
       task_repo = ''PR-CYBR-AGENT-01'',
       task_title = take 100 (strip line),
       task_description = strip line,
       task_priority = ''medium'',
       task_type = ''enhancement'',
       task_labels = [''automation/codex'', ''meeting/'' @ mid],
       task_explicit = False \<rparr>"

text \<open>
  The \<open>for line in lines\<close> loop, with its counter and its accumulator; the \<open>break\<close> is the
  branch that returns without looking at the rest.
\<close>

fun stub_loop :: "string \<Rightarrow> string list \<Rightarrow> nat \<Rightarrow> task list \<Rightarrow> task list" where
  "stub_loop mid [] task_id_counter tasks = tasks"
| "stub_loop mid (line # rest) task_id_counter tasks =
     (if is_action_line line then
        (let tasks' = tasks @ [make_task mid task_id_counter line];
             counter' = task_id_counter + 1
         in if counter' > 10 then tasks' else stub_loop mid rest counter' tasks')
      else stub_loop mid rest task_id_counter tasks)"

definition extract_tasks_stub :: "transcript_data \<Rightarrow> task list" where
  "extract_tasks_stub td =
     (let mid = (case meeting_id td of None \<Rightarrow> ''unknown'' | Some m \<Rightarrow> m);
          transcript_text = (case transcript td of None \<Rightarrow> [] | Some t \<Rightarrow> t);
          lines = split_on newline transcript_text
      in stub_loop mid lines 1 [])"

text \<open>
  The entry point reads \<open>OPENAI_API_KEY\<close> from the environment (\<open>None\<close> when unset) and
  returns the tasks; the log line it writes is the first component.
\<close>

definition extract_tasks_with_llm :: "string option \<Rightarrow> transcript_data \<Rightarrow> string \<times> task list" where
  "extract_tasks_with_llm api_key td =
     (if api_key = None \<or> api_key = Some [] then
        (''OPENAI_API_KEY not set. Using stub task extraction.'', extract_tasks_stub td)
      else
        (''Using stub task extraction (OpenAI integration not yet implemented)'',
         extract_tasks_stub td))"

text \<open>The lines of the transcript and the meeting identifier, as the extractor reads them.\<close>

definition transcript_lines :: "transcript_data \<Rightarrow> string list" where
  "transcript_lines td = split_on newline (case transcript td of None \<Rightarrow> [] | Some t \<Rightarrow> t)"

definition meeting_of :: "transcript_data \<Rightarrow> string" where
  "meeting_of td = (case meeting_id td of None \<Rightarrow> ''unknown'' | Some m \<Rightarrow> m)"

section \<open>Release schedule (scripts/populate\_release\_schedule.py)\<close>

text \<open>
  A \<open>datetime\<close> is its date, as the proleptic Gregorian ordinal of \<open>date.toordinal()\<close>
  (day 1 is 0001-01-01, a Monday), and its time of day. The largest date is 9999-12-31,
  ordinal 3652059; adding a \<open>timedelta\<close> that leaves the range raises \<open>OverflowError\<close>.
\<close>

record datetime =
  ordinal :: int
  hour :: nat
  minute :: nat
  second :: nat
  microsecond :: nat

datatype error =
    OverflowError
  | ValueError string
  | IndexError
  | TypeError
  | RequestException string
  | APIError string

definition MINORDINAL :: int where
  "MINORDINAL = 1"

definition MAXORDINAL :: int where
  "MAXORDINAL = 3652059"

text \<open>\<open>d.weekday()\<close>: Monday is 0, Sunday is 6.\<close>

definition weekday :: "datetime \<Rightarrow> int" where
  "weekday d = (ordinal d + 6) mod 7"

text \<open>\<open>d + timedelta(days=n)\<close>\<close>

definition plus_days :: "datetime \<Rightarrow> int \<Rightarrow> error + datetime" where
  "plus_days d n =
     (if MINORDINAL \<le> ordinal d + n \<and> ordinal d + n \<le> MAXORDINAL
      then Inr (d\<lparr>ordinal := ordinal d + n\<rparr>) else Inl OverflowError)"

text \<open>\<open>d.replace(hour=6, minute=0, second=0, microsecond=0)\<close>\<close>

definition replace_six :: "datetime \<Rightarrow> datetime" where
  "replace_six d = d\<lparr>hour := 6, minute := 0, second := 0, microsecond := 0\<rparr>"

definition RELEASE_DAYS :: "int list" where
  "RELEASE_DAYS = [0, 2, 4]"

text \<open>
  The loop over \<open>RELEASE_DAYS\<close> returns at the first day after the current weekday; when
  there is none, the Monday of the next week is taken.
\<close>

definition get_next_release_day :: "datetime \<Rightarrow> error + datetime" where
  "get_next_release_day current_date =
     (let current_weekday = weekday current_date in
      case find (\<lambda>day. day > current_weekday) RELEASE_DAYS of
        Some day \<Rightarrow>
          (let days_ahead = day - current_weekday in
           case plus_days current_date days_ahead of
             Inl e \<Rightarrow> Inl e
           | Inr next_date \<Rightarrow> Inr (replace_six next_date))
      | None \<Rightarrow>
          (let days_ahead = (7 - current_weekday) + RELEASE_DAYS ! 0 in
           case plus_days current_date days_ahead of
             Inl e \<Rightarrow> Inl e
           | Inr next_date \<Rightarrow> Inr (replace_six next_date)))"

text \<open>The step both schedule loops take: \<open>get_next_release_day(d + timedelta(days=1))\<close>.\<close>

definition next_after :: "datetime \<Rightarrow> error + datetime" where
  "next_after d = (case plus_days d 1 of Inl e \<Rightarrow> Inl e | Inr d' \<Rightarrow> get_next_release_day d')"

type_synonym schedule_entry = "int \<times> int \<times> datetime"

text \<open>
  The loop of \<open>generate_season_schedule\<close> over the episode numbers: the entry is appended
  with the current date before the date is moved, also after the last episode.
\<close>

fun season_loop ::
  "int \<Rightarrow> int list \<Rightarrow> datetime \<Rightarrow> schedule_entry list \<Rightarrow> error + schedule_entry list" where
  "season_loop season [] current_date schedule = Inr schedule"
| "season_loop season (episode # rest) current_date schedule =
     (case next_after current_date of
        Inl e \<Rightarrow> Inl e
      | Inr d \<Rightarrow> season_loop season rest d (schedule @ [(season, episode, current_date)]))"

definition generate_season_schedule ::
  "int \<Rightarrow> int \<Rightarrow> datetime \<Rightarrow> error + schedule_entry list" where
  "generate_season_schedule season episodes start_date =
     season_loop season [1..episodes] start_date []"

text \<open>The loop of \<open>generate_full_schedule\<close> over the seasons.\<close>

fun full_loop ::
  "int list \<Rightarrow> int \<Rightarrow> datetime \<Rightarrow> schedule_entry list \<Rightarrow> error + schedule_entry list" where
  "full_loop [] episodes_per_season current_date full_schedule = Inr full_schedule"
| "full_loop (season # rest) episodes_per_season current_date full_schedule =
     (case generate_season_schedule season episodes_per_season current_date of
        Inl e \<Rightarrow> Inl e
      | Inr season_schedule \<Rightarrow>
          (if season_schedule \<noteq> [] then
             (case next_after (snd (snd (last season_schedule))) of
                Inl e \<Rightarrow> Inl e
              | Inr d \<Rightarrow> full_loop rest episodes_per_season d (full_schedule @ season_schedule))
           else full_loop rest episodes_per_season current_date (full_schedule @ season_schedule)))"

definition generate_full_schedule ::
  "datetime \<Rightarrow> int \<Rightarrow> int \<Rightarrow> error + schedule_entry list" where
  "generate_full_schedule start_date seasons episodes_per_season =
     full_loop [1..seasons] episodes_per_season start_date []"

text \<open>The release dates of a schedule, and the time of day 06:00:00.\<close>

definition release_dates :: "schedule_entry list \<Rightarrow> datetime list" where
  "release_dates schedule = map (\<lambda>(season, episode, release_date). release_date) schedule"

definition at_six :: "datetime \<Rightarrow> bool" where
  "at_six d = (hour d = 6 \<and> minute d = 0 \<and> second d = 0 \<and> microsecond d = 0)"

text \<open>
  The days from a date to the release date that the loops take after it, by its weekday,
  and the dates a schedule walks through from a start date.
\<close>

definition step_days :: "int \<Rightarrow> int" where
  "step_days w = (if w = 0 then 2 else if w = 1 then 3 else if w = 2 then 2 else if w = 3 then 4
     else if w = 4 then 3 else if w = 5 then 2 else 3)"

definition advance :: "datetime \<Rightarrow> datetime" where
  "advance d = replace_six (d\<lparr>ordinal := ordinal d + step_days (weekday d)\<rparr>)"

fun walk :: "datetime \<Rightarrow> nat \<Rightarrow> datetime list" where
  "walk d 0 = []"
| "walk d (Suc n) = d # walk (advance d) n"

section \<open>Episode code names (scripts/generate\_code\_names.py)\<close>

definition EPISODES_PER_SEASON :: int where
  "EPISODES_PER_SEASON = 52"

definition TOTAL_SEASONS :: int where
  "TOTAL_SEASONS = 17"

definition CODE_PREFIX :: string where
  "CODE_PREFIX = ''P0D''"

definition CODE_THEME :: string where
  "CODE_THEME = ''AXIS''"

text \<open>The dictionary of symbol sets, in its insertion order.\<close>

definition SYMBOL_SETS :: "(string \<times> string list) list" where
  "SYMBOL_SETS =
    [(''encryption'',
        [''CIPHER'', ''ENCRYPT'', ''HASH'', ''TOKEN'', ''KEY'', ''SALT'',
         ''AES'', ''RSA'', ''TLS'', ''SSL'', ''PKI'', ''CERT'']),
     (''security'',
        [''FIREWALL'', ''SHIELD'', ''GUARD'', ''SENTINEL'', ''BASTION'', ''FORTRESS'',
         ''AEGIS'', ''BARRIER'', ''DEFENSE'', ''PATROL'', ''WATCH'', ''VAULT'']),
     (''attack'',
        [''BREACH'', ''EXPLOIT'', ''PAYLOAD'', ''VECTOR'', ''MALWARE'', ''PHISH'',
         ''TROJAN'', ''WORM'', ''ROOTKIT'', ''BACKDOOR'', ''INJECT'', ''OVERFLOW'']),
     (''network'',
        [''PACKET'', ''ROUTER'', ''GATEWAY'', ''PROXY'', ''TUNNEL'', ''BRIDGE'',
         ''NODE'', ''MESH'', ''FABRIC'', ''LINK'', ''HUB'', ''SWITCH'']),
     (''data'',
        [''STREAM'', ''BUFFER'', ''CACHE'', ''QUEUE'', ''STACK'', ''HEAP'',
         ''BLOCK'', ''CHUNK'', ''SHARD'', ''FRAME'', ''SEGMENT'', ''BYTE'']),
     (''protocol'',
        [''HTTP'', ''TCP'', ''UDP'', ''DNS'', ''DHCP'', ''FTP'',
         ''SMTP'', ''SSH'', ''SNMP'', ''ICMP'', ''BGP'', ''OSPF'']),
     (''operation'',
        [''SCAN'', ''PROBE'', ''TRACE'', ''QUERY'', ''FETCH'', ''PUSH'',
         ''PULL'', ''MERGE'', ''FORK'', ''CLONE'', ''PATCH'', ''BUILD'']),
     (''status'',
        [''ACTIVE'', ''IDLE'', ''READY'', ''ARMED'', ''ALERT'', ''LOCKED'',
         ''SECURE'', ''OPEN'', ''CLOSED'', ''PENDING'', ''LIVE'', ''STANDBY''])]"

text \<open>
  The symbols of all categories, flattened, then \<open>sorted(set(all_symbols))\<close>: without
  duplicates and in the order of Python's string comparison.
\<close>

definition all_symbols :: "string list" where
  "all_symbols = sort (remdups (concat (map snd SYMBOL_SETS)))"

text \<open>The symbol appended for index \<open>i\<close> in the loop over \<open>range(total_episodes)\<close>.\<close>

definition pool_symbol :: "string list \<Rightarrow> nat \<Rightarrow> string" where
  "pool_symbol symbols i =
     (let base_symbol = symbols ! (i mod length symbols);
          suffix_num = i div length symbols
      in if suffix_num > 0 then base_symbol @ str_nat suffix_num else base_symbol)"

fun pool_loop :: "string list \<Rightarrow> nat list \<Rightarrow> string list \<Rightarrow> string list" where
  "pool_loop symbols [] symbol_pool = symbol_pool"
| "pool_loop symbols (i # rest) symbol_pool =
     pool_loop symbols rest (symbol_pool @ [pool_symbol symbols i])"

text \<open>The slice \<open>xs[:n]\<close>, which counts a negative \<open>n\<close> from the end.\<close>

definition slice_to :: "'a list \<Rightarrow> int \<Rightarrow> 'a list" where
  "slice_to xs n = (if 0 \<le> n then take (nat n) xs else take (length xs - nat (- n)) xs)"

definition generate_symbol_pool :: "int \<Rightarrow> int \<Rightarrow> string list" where
  "generate_symbol_pool seasons episodes_per_season =
     (let total_episodes = seasons * episodes_per_season in
      if total_episodes > int (length all_symbols)
      then pool_loop all_symbols [0..<nat total_episodes] []
      else slice_to all_symbols total_episodes)"

text \<open>The format specification \<open>{i:0wd}\<close> for an integer: the sign comes before the zeros.\<close>

definition zero_pad_int :: "nat \<Rightarrow> int \<Rightarrow> string" where
  "zero_pad_int w i =
     (if i < 0 then CHR ''-'' # zero_pad (w - 1) (nat (- i)) else zero_pad w (nat i))"

definition generate_code_name :: "int \<Rightarrow> int \<Rightarrow> string \<Rightarrow> string" where
  "generate_code_name season episode symbol =
     CODE_PREFIX @ ''-S'' @ zero_pad_int 2 season @ ''-E'' @ zero_pad_int 3 episode @
       ''-'' @ CODE_THEME @ ''-'' @ symbol"

type_synonym code_name_entry = "int \<times> int \<times> string \<times> string"

text \<open>
  The two nested loops of \<open>generate_all_code_names\<close>, with the running \<open>symbol_index\<close>
  and the list built so far; \<open>symbols[symbol_index]\<close> raises \<open>IndexError\<close> beyond the pool.
\<close>

fun episode_loop ::
  "string list \<Rightarrow> int \<Rightarrow> int list \<Rightarrow> nat \<Rightarrow> code_name_entry list \<Rightarrow>
     error + (nat \<times> code_name_entry list)" where
  "episode_loop symbols season [] symbol_index code_names = Inr (symbol_index, code_names)"
| "episode_loop symbols season (episode # rest) symbol_index code_names =
     (if symbol_index < length symbols then
        (let symbol = symbols ! symbol_index;
             code_name = generate_code_name season episode symbol
         in episode_loop symbols season rest (symbol_index + 1)
              (code_names @ [(season, episode, code_name, symbol)]))
      else Inl IndexError)"

fun code_names_loop ::
  "string list \<Rightarrow> int \<Rightarrow> int list \<Rightarrow> nat \<Rightarrow> code_name_entry list \<Rightarrow>
     error + code_name_entry list" where
  "code_names_loop symbols episodes_per_season [] symbol_index code_names = Inr code_names"
| "code_names_loop symbols episodes_per_season (season # rest) symbol_index code_names =
     (case episode_loop symbols season [1..episodes_per_season] symbol_index code_names of
        Inl e \<Rightarrow> Inl e
      | Inr (symbol_index', code_names') \<Rightarrow>
          code_names_loop symbols episodes_per_season rest symbol_index' code_names')"

text \<open>
  \<open>randomize\<close> is \<open>None\<close> for \<open>False\<close>; for \<open>True\<close> it carries the permutation that
  \<open>random.shuffle\<close> applies to the pool.
\<close>

definition generate_all_code_names ::
  "int \<Rightarrow> int \<Rightarrow> (string list \<Rightarrow> string list) option \<Rightarrow> error + code_name_entry list" where
  "generate_all_code_names seasons episodes_per_season randomize =
     (let symbols = generate_symbol_pool seasons episodes_per_season;
          symbols = (case randomize of None \<Rightarrow> symbols | Some shuffle \<Rightarrow> shuffle symbols)
      in code_names_loop symbols episodes_per_season [1..seasons] 0 [])"

text \<open>The code names and the symbols of a generated list.\<close>

definition code_names_of :: "code_name_entry list \<Rightarrow> string list" where
  "code_names_of entries = map (\<lambda>(season, episode, code_name, symbol). code_name) entries"

definition symbols_of :: "code_name_entry list \<Rightarrow> string list" where
  "symbols_of entries = map (\<lambda>(season, episode, code_name, symbol). symbol) entries"

text \<open>The numeric suffix of the reuse number \<open>k\<close>, and the entry built for an episode.\<close>

definition suffix_of :: "nat \<Rightarrow> string" where
  "suffix_of k = (if k > 0 then str_nat k else [])"

definition mk_entry :: "(int \<times> int) \<times> string \<Rightarrow> code_name_entry" where
  "mk_entry p = (case p of ((season, episode), symbol) \<Rightarrow>
     (season, episode, generate_code_name season episode symbol, symbol))"

section \<open>Enrichment pipeline (scripts/sync\_notion\_enhanced.py, scripts/google\_drive\_utils.py)\<close>

text \<open>
  The episode dictionary. A field read with \<open>episode.get\<close> is \<open>None\<close> when the key is missing
  or its value is \<open>None\<close> (a URL property that Notion returns as null).
\<close>

record episode =
  ep_notion_id :: string
  ep_title :: "string option"
  ep_description :: "string option"
  ep_season :: "int option"
  ep_episode :: "int option"
  ep_code_name :: "string option"
  ep_prompt_input :: "string option"
  ep_script_doc_link :: "string option"
  ep_track_cloud :: "string option"
  ep_duration :: "string option"
  ep_show_notes_link :: "string option"

text \<open>Python's truth value of an optional string: \<open>None\<close> and the empty string are false.\<close>

definition truthy :: "string option \<Rightarrow> bool" where
  "truthy v = (case v of None \<Rightarrow> False | Some s \<Rightarrow> s \<noteq> [])"

text \<open>
  The calls that leave the process, in the order they are made: the two clients of
  google\_drive\_utils and \<open>client.pages.update\<close> of the Notion client, with the page, the
  property name, the value and the property type.
\<close>

datatype remote_call =
    Create_Google_Doc string string
  | Add_Source_To_Notebook string string
  | Generate_Audio_Overview string
  | Pages_Update string string string string

text \<open>
  What the sync object holds and what its surroundings decide: whether the two Google
  clients were initialised, the files of the prompts directory by name, the value of
  Python's built-in \<open>hash\<close> on strings (it changes from process to process), and whether
  a \<open>pages.update\<close> call for a page and property raises.
\<close>

record sync_env =
  google_drive :: bool
  notebook_lm :: bool
  prompt_files :: "string \<Rightarrow> string option"
  py_hash :: "string \<Rightarrow> int"
  update_raises :: "string \<Rightarrow> string \<Rightarrow> bool"

text \<open>\<open>GoogleDriveClient.create_google_doc\<close>: the identifier and the URL of the document.\<close>

definition create_google_doc ::
  "sync_env \<Rightarrow> string \<Rightarrow> string \<Rightarrow> remote_call list \<Rightarrow> (string \<times> string) \<times> remote_call list" where
  "create_google_doc env doc_title content trace =
     (let doc_id = ''doc_'' @ zero_pad_int 4 (py_hash env doc_title mod 10000);
          doc_url = ''https://docs.google.com/document/d/'' @ doc_id @ ''/edit''
      in ((doc_id, doc_url), trace @ [Create_Google_Doc doc_title content]))"

text \<open>\<open>NotebookLMClient.generate_audio_overview\<close> with the default format: the URL.\<close>

definition generate_audio_overview ::
  "sync_env \<Rightarrow> string \<Rightarrow> remote_call list \<Rightarrow> string \<times> remote_call list" where
  "generate_audio_overview env notebook_id trace =
     (let audio_id = ''audio_'' @ zero_pad_int 4 (py_hash env notebook_id mod 10000);
          audio_url = ''https://notebooklm.google.com/audio/'' @ audio_id @ ''.'' @ ''mp3''
      in (audio_url, trace @ [Generate_Audio_Overview notebook_id]))"

definition add_source_to_notebook ::
  "string \<Rightarrow> string \<Rightarrow> remote_call list \<Rightarrow> remote_call list" where
  "add_source_to_notebook notebook_id document_id trace =
     trace @ [Add_Source_To_Notebook notebook_id document_id]"

text \<open>\<open>generate_show_notes\<close> with no template.\<close>

definition generate_show_notes :: "episode \<Rightarrow> string" where
  "generate_show_notes episode_data =
     (let title = (case ep_title episode_data of None \<Rightarrow> ''Unknown Episode'' | Some t \<Rightarrow> t);
          description = (case ep_description episode_data of None \<Rightarrow> [] | Some d \<Rightarrow> d);
          nl = [newline]
      in ''# '' @ title @ nl @ nl @
         ''## Episode Description'' @ nl @ description @ nl @ nl @
         ''## Topics Covered'' @ nl @ ''- [Topic to be added]'' @ nl @ nl @
         ''## Resources'' @ nl @ ''- [Resource links to be added]'' @ nl @ nl @
         ''## Timestamps'' @ nl @ ''- 00:00 - Introduction'' @ nl @
         ''- [Additional timestamps to be added]'' @ nl @ nl @
         ''---'' @ nl @ ''Generated automatically by PR-CYBR-P0D'' @ nl)"

text \<open>
  \<open>update_notion_property\<close>: the call is made for the three supported property types; an
  exception of the call is caught and turned into \<open>False\<close>.
\<close>

definition update_notion_property ::
  "sync_env \<Rightarrow> string \<Rightarrow> string \<Rightarrow> string \<Rightarrow> string \<Rightarrow> remote_call list \<Rightarrow>
     bool \<times> remote_call list" where
  "update_notion_property env page_id property_name v property_type trace =
     (if property_type = ''rich_text'' \<or> property_type = ''url'' \<or> property_type = ''number''
      then (\<not> update_raises env page_id property_name,
            trace @ [Pages_Update page_id property_name v property_type])
      else (False, trace))"

text \<open>The title of a document: \<open>f"{episode.get('code_name', 'Episode')} - <kind>"\<close>.\<close>

definition doc_title_of :: "episode \<Rightarrow> string \<Rightarrow> string" where
  "doc_title_of ep kind =
     (case ep_code_name ep of None \<Rightarrow> ''Episode'' | Some c \<Rightarrow> c) @ '' - '' @ kind"

text \<open>
  The four steps. Each returns its result, or the exception it raises (formatting a
  season or episode number that is \<open>None\<close>), and the calls made so far.
\<close>

definition process_prompt_input ::
  "sync_env \<Rightarrow> episode \<Rightarrow> remote_call list \<Rightarrow> (error + bool) \<times> remote_call list" where
  "process_prompt_input env ep trace =
     (if \<not> google_drive env then (Inr False, trace)
      else
        (let prompt_text = (case ep_prompt_input ep of None \<Rightarrow> [] | Some p \<Rightarrow> p);
             from_file =
               (if prompt_text \<noteq> [] then Inr (Some prompt_text)
                else
                  (case (ep_season ep, ep_episode ep) of
                     (Some s, Some e) \<Rightarrow>
                       Inr (prompt_files env
                         (''prompt_S'' @ zero_pad_int 2 s @ ''E'' @ zero_pad_int 3 e @ ''.txt''))
                   | _ \<Rightarrow> Inl TypeError))
         in case from_file of
              Inl err \<Rightarrow> (Inl err, trace)
            | Inr None \<Rightarrow> (Inr False, trace)
            | Inr (Some text) \<Rightarrow>
                (let ((doc_id, doc_url), trace1) =
                       create_google_doc env (doc_title_of ep ''Script'') text trace;
                     (ok, trace2) =
                       update_notion_property env (ep_notion_id ep) ''Script-Doc-Link''
                         doc_url ''url'' trace1
                 in (Inr True, trace2))))"

definition process_notebooklm_integration ::
  "sync_env \<Rightarrow> episode \<Rightarrow> remote_call list \<Rightarrow> (error + bool) \<times> remote_call list" where
  "process_notebooklm_integration env ep trace =
     (if \<not> notebook_lm env \<or> \<not> truthy (ep_script_doc_link ep) then (Inr False, trace)
      else
        (let doc_url = the (ep_script_doc_link ep);
             parts = split_on CHR ''/'' doc_url;
             doc_id = (if CHR ''/'' \<in> set doc_url then parts ! (length parts - 2) else doc_url)
         in case ep_season ep of
              None \<Rightarrow> (Inl TypeError, trace)
            | Some s \<Rightarrow>
                (let notebook_id = ''notebook_S'' @ zero_pad_int 2 s;
                     trace1 = add_source_to_notebook notebook_id doc_id trace;
                     (audio_url, trace2) = generate_audio_overview env notebook_id trace1;
                     (ok, trace3) =
                       update_notion_property env (ep_notion_id ep) ''Track-Cloud''
                         audio_url ''url'' trace2
                 in (Inr True, trace3))))"

definition process_audio_metadata ::
  "sync_env \<Rightarrow> episode \<Rightarrow> remote_call list \<Rightarrow> (error + bool) \<times> remote_call list" where
  "process_audio_metadata env ep trace =
     (if \<not> truthy (ep_track_cloud ep) then (Inr False, trace)
      else
        (let duration = ''45:30'';
             (ok, trace1) =
               update_notion_property env (ep_notion_id ep) ''Duration'' duration
                 ''rich_text'' trace
         in (Inr True, trace1)))"

definition generate_and_upload_show_notes ::
  "sync_env \<Rightarrow> episode \<Rightarrow> remote_call list \<Rightarrow> (error + bool) \<times> remote_call list" where
  "generate_and_upload_show_notes env ep trace =
     (if \<not> google_drive env then (Inr False, trace)
      else
        (let show_notes = generate_show_notes ep;
             ((doc_id, doc_url), trace1) =
               create_google_doc env (doc_title_of ep ''Show Notes'') show_notes trace;
             (ok, trace2) =
               update_notion_property env (ep_notion_id ep) ''Show-Notes-Link''
                 doc_url ''url'' trace1
         in (Inr True, trace2)))"

text \<open>
  A step of \<open>retrofit_episode\<close>: run under its condition, skipped otherwise; once a step
  has raised, the \<open>except\<close> clause is reached and no later step runs.
\<close>

definition guarded_step ::
  "bool \<Rightarrow> (remote_call list \<Rightarrow> (error + bool) \<times> remote_call list) \<Rightarrow>
     (error + bool) \<times> remote_call list \<Rightarrow> (error + bool) \<times> remote_call list" where
  "guarded_step cond step st =
     (case st of
        (Inl err, trace) \<Rightarrow> (Inl err, trace)
      | (Inr ok, trace) \<Rightarrow> (if cond then step trace else (Inr True, trace)))"

definition retrofit_episode :: "sync_env \<Rightarrow> episode \<Rightarrow> bool \<times> remote_call list" where
  "retrofit_episode env ep =
     (let st0 = (Inr True, []);
          st1 = guarded_step (truthy (ep_prompt_input ep) \<and> \<not> truthy (ep_script_doc_link ep))
                  (process_prompt_input env ep) st0;
          st2 = guarded_step (truthy (ep_script_doc_link ep) \<and> \<not> truthy (ep_track_cloud ep))
                  (process_notebooklm_integration env ep) st1;
          st3 = guarded_step (truthy (ep_track_cloud ep) \<and> \<not> truthy (ep_duration ep))
                  (process_audio_metadata env ep) st2;
          st4 = guarded_step (truthy (ep_track_cloud ep) \<and> \<not> truthy (ep_show_notes_link ep))
                  (generate_and_upload_show_notes env ep) st3
      in case st4 of
           (Inl err, trace) \<Rightarrow> (False, trace)
         | (Inr ok, trace) \<Rightarrow> (True, trace))"

text \<open>The properties that a sequence of calls writes, and the kinds of its other calls.\<close>

fun updated_property :: "remote_call \<Rightarrow> string option" where
  "updated_property (Pages_Update page_id property_name v property_type) = Some property_name"
| "updated_property _ = None"

definition updated_properties :: "remote_call list \<Rightarrow> string list" where
  "updated_properties trace = List.map_filter updated_property trace"

text \<open>
  The four enrichment steps, the step a call belongs to, and the field a step fills.
\<close>

datatype enrichment_step =
    Document_Creation
  | Audio_Source_Registration
  | Duration_Extraction
  | Show_Notes_Generation

fun call_step :: "episode \<Rightarrow> remote_call \<Rightarrow> enrichment_step" where
  "call_step ep (Create_Google_Doc doc_title content) =
     (if doc_title = doc_title_of ep ''Script'' then Document_Creation else Show_Notes_Generation)"
| "call_step ep (Add_Source_To_Notebook notebook_id document_id) = Audio_Source_Registration"
| "call_step ep (Generate_Audio_Overview notebook_id) = Audio_Source_Registration"
| "call_step ep (Pages_Update page_id property_name v property_type) =
     (if property_name = ''Script-Doc-Link'' then Document_Creation
      else if property_name = ''Track-Cloud'' then Audio_Source_Registration
      else if property_name = ''Duration'' then Duration_Extraction
      else Show_Notes_Generation)"

fun output_field :: "episode \<Rightarrow> enrichment_step \<Rightarrow> string option" where
  "output_field ep Document_Creation = ep_script_doc_link ep"
| "output_field ep Audio_Source_Registration = ep_track_cloud ep"
| "output_field ep Duration_Extraction = ep_duration ep"
| "output_field ep Show_Notes_Generation = ep_show_notes_link ep"

text \<open>A run in which both Google clients are there and no update fails, and two episodes.\<close>

definition sample_env :: sync_env where
  "sample_env = \<lparr>google_drive = True, notebook_lm = True, prompt_files = (\<lambda>name. None),
     py_hash = (\<lambda>s. int (length s)) , update_raises = (\<lambda>page_id property_name. False)\<rparr>"

definition enriched_episode :: episode where
  "enriched_episode = \<lparr>ep_notion_id = ''page-1'', ep_title = Some ''Pilot'',
     ep_description = None, ep_season = Some 1, ep_episode = Some 1,
     ep_code_name = Some ''P0D-S01-E001-AXIS-ACTIVE'', ep_prompt_input = Some ''prompt'',
     ep_script_doc_link = Some ''https://docs.google.com/document/d/doc_0001/edit'',
     ep_track_cloud = Some ''https://notebooklm.google.com/audio/audio_0001.mp3'',
     ep_duration = Some ''45:30'',
     ep_show_notes_link = Some ''https://docs.google.com/document/d/doc_0002/edit''\<rparr>"

text \<open>No call of the sequence belongs to a step whose field the episode has already.\<close>

definition skips_populated :: "episode \<Rightarrow> remote_call list \<Rightarrow> bool" where
  "skips_populated ep trace = (\<forall>c\<in>set trace. \<not> truthy (output_field ep (call_step ep c)))"

section \<open>Deterministic identifiers (scripts/notion\_sync.py)\<close>

subsection \<open>The library functions: UTF-8, SHA-256, UUID\<close>

type_synonym u8 = "8 word"
type_synonym u32 = "32 word"

text \<open>\<open>s.encode('utf-8')\<close> on the code points U+0000 to U+00FF: one byte below U+0080, two above.\<close>

definition utf8_char :: "char \<Rightarrow> u8 list" where
  "utf8_char c =
     (let n = (of_char c :: nat) in
      if n < 128 then [of_nat n] else [of_nat (192 + n div 64), of_nat (128 + n mod 64)])"

definition utf8_encode :: "string \<Rightarrow> u8 list" where
  "utf8_encode s = concat (map utf8_char s)"

text \<open>
  \<open>hashlib.sha256\<close>, as FIPS 180-4 defines it: the message is padded to whole blocks of 64
  bytes, each block is expanded to 64 words and compressed into the state of 8 words.
\<close>

definition sha256_K :: "u32 list" where
  "sha256_K =
    [0x428A2F98, 0x71374491, 0xB5C0FBCF, 0xE9B5DBA5, 0x3956C25B, 0x59F111F1,
     0x923F82A4, 0xAB1C5ED5, 0xD807AA98, 0x12835B01, 0x243185BE, 0x550C7DC3,
     0x72BE5D74, 0x80DEB1FE, 0x9BDC06A7, 0xC19BF174, 0xE49B69C1, 0xEFBE4786,
     0x0FC19DC6, 0x240CA1CC, 0x2DE92C6F, 0x4A7484AA, 0x5CB0A9DC, 0x76F988DA,
     0x983E5152, 0xA831C66D, 0xB00327C8, 0xBF597FC7, 0xC6E00BF3, 0xD5A79147,
     0x06CA6351, 0x14292967, 0x27B70A85, 0x2E1B2138, 0x4D2C6DFC, 0x53380D13,
     0x650A7354, 0x766A0ABB, 0x81C2C92E, 0x92722C85, 0xA2BFE8A1, 0xA81A664B,
     0xC24B8B70, 0xC76C51A3, 0xD192E819, 0xD6990624, 0xF40E3585, 0x106AA070,
     0x19A4C116, 0x1E376C08, 0x2748774C, 0x34B0BCB5, 0x391C0CB3, 0x4ED8AA4A,
     0x5B9CCA4F, 0x682E6FF3, 0x748F82EE, 0x78A5636F, 0x84C87814, 0x8CC70208,
     0x90BEFFFA, 0xA4506CEB, 0xBEF9A3F7, 0xC67178F2]"

type_synonym sha_state = "u32 \<times> u32 \<times> u32 \<times> u32 \<times> u32 \<times> u32 \<times> u32 \<times> u32"

definition sha256_H0 :: sha_state where
  "sha256_H0 =
    (0x6A09E667, 0xBB67AE85, 0x3C6EF372, 0xA54FF53A,
     0x510E527F, 0x9B05688C, 0x1F83D9AB, 0x5BE0CD19)"

definition Ch :: "u32 \<Rightarrow> u32 \<Rightarrow> u32 \<Rightarrow> u32" where
  "Ch x y z = (x AND y) XOR (NOT x AND z)"

definition Maj :: "u32 \<Rightarrow> u32 \<Rightarrow> u32 \<Rightarrow> u32" where
  "Maj x y z = (x AND y) XOR (x AND z) XOR (y AND z)"

definition Sigma0 :: "u32 \<Rightarrow> u32" where
  "Sigma0 x = word_rotr 2 x XOR word_rotr 13 x XOR word_rotr 22 x"

definition Sigma1 :: "u32 \<Rightarrow> u32" where
  "Sigma1 x = word_rotr 6 x XOR word_rotr 11 x XOR word_rotr 25 x"

definition sigma0 :: "u32 \<Rightarrow> u32" where
  "sigma0 x = word_rotr 7 x XOR word_rotr 18 x XOR drop_bit 3 x"

definition sigma1 :: "u32 \<Rightarrow> u32" where
  "sigma1 x = word_rotr 17 x XOR word_rotr 19 x XOR drop_bit 10 x"

text \<open>The padding: the byte 0x80, zero bytes up to 56 modulo 64, the bit length in 8 bytes.\<close>

definition length_bytes :: "64 word \<Rightarrow> u8 list" where
  "length_bytes w = map (\<lambda>i. ucast (drop_bit (8 * (7 - i)) w)) [0..<8]"

definition sha256_pad :: "u8 list \<Rightarrow> u8 list" where
  "sha256_pad msg =
     msg @ [0x80] @ replicate ((119 - length msg mod 64) mod 64) 0 @
       length_bytes (of_nat (8 * length msg))"

text \<open>Four bytes as a big-endian word, and a block of 64 bytes as 16 words.\<close>

fun be_words :: "u8 list \<Rightarrow> u32 list" where
  "be_words (a # b # c # d # rest) =
     (push_bit 24 (ucast a) OR push_bit 16 (ucast b) OR push_bit 8 (ucast c) OR ucast d)
       # be_words rest"
| "be_words _ = []"

text \<open>The message schedule: \<open>n\<close> further words after the 16 of the block.\<close>

fun schedule :: "nat \<Rightarrow> u32 list \<Rightarrow> u32 list" where
  "schedule 0 w = w"
| "schedule (Suc n) w =
     (let t = length w in
      schedule n (w @ [sigma1 (w ! (t - 2)) + w ! (t - 7) + sigma0 (w ! (t - 15)) + w ! (t - 16)]))"

definition sha_round :: "sha_state \<Rightarrow> u32 \<times> u32 \<Rightarrow> sha_state" where
  "sha_round st kw =
     (case st of (a, b, c, d, e, f, g, h) \<Rightarrow>
        (let T1 = h + Sigma1 e + Ch e f g + fst kw + snd kw;
             T2 = Sigma0 a + Maj a b c
         in (T1 + T2, a, b, c, d + T1, e, f, g)))"

definition add_state :: "sha_state \<Rightarrow> sha_state \<Rightarrow> sha_state" where
  "add_state s t =
     (case s of (a, b, c, d, e, f, g, h) \<Rightarrow>
      case t of (a', b', c', d', e', f', g', h') \<Rightarrow>
        (a + a', b + b', c + c', d + d', e + e', f + f', g + g', h + h'))"

definition sha256_block :: "sha_state \<Rightarrow> u8 list \<Rightarrow> sha_state" where
  "sha256_block st block =
     add_state st (foldl sha_round st (zip sha256_K (schedule 48 (be_words block))))"

fun sha256_blocks :: "nat \<Rightarrow> sha_state \<Rightarrow> u8 list \<Rightarrow> sha_state" where
  "sha256_blocks 0 st bytes = st"
| "sha256_blocks (Suc n) st bytes = sha256_blocks n (sha256_block st (take 64 bytes)) (drop 64 bytes)"

definition word_bytes :: "u32 \<Rightarrow> u8 list" where
  "word_bytes w = [ucast (drop_bit 24 w), ucast (drop_bit 16 w), ucast (drop_bit 8 w), ucast w]"

text \<open>\<open>hashlib.sha256(data).digest()\<close>: 32 bytes.\<close>

definition sha256 :: "u8 list \<Rightarrow> u8 list" where
  "sha256 msg =
     (let padded = sha256_pad msg in
      case sha256_blocks (length padded div 64) sha256_H0 padded of
        (a, b, c, d, e, f, g, h) \<Rightarrow> concat (map word_bytes [a, b, c, d, e, f, g, h]))"

text \<open>Lower-case hexadecimal digits, and \<open>hexdigest()\<close>: two digits for each byte.\<close>

definition hex_char :: "nat \<Rightarrow> char" where
  "hex_char d = (if d < 10 then char_of (48 + d) else char_of (87 + d))"

definition hex_byte :: "u8 \<Rightarrow> string" where
  "hex_byte b = [hex_char (unat b div 16), hex_char (unat b mod 16)]"

definition hexdigest :: "u8 list \<Rightarrow> string" where
  "hexdigest bytes = concat (map hex_byte bytes)"

definition is_lower_hex :: "char \<Rightarrow> bool" where
  "is_lower_hex c = ((CHR ''0'' \<le> c \<and> c \<le> CHR ''9'') \<or> (CHR ''a'' \<le> c \<and> c \<le> CHR ''f''))"

definition hex_value :: "char \<Rightarrow> nat" where
  "hex_value c = (if c \<le> CHR ''9'' then of_char c - 48 else of_char c - 87)"

text \<open>\<open>int(hex, 16)\<close> on lower-case hexadecimal digits.\<close>

definition int_of_hex :: "string \<Rightarrow> nat" where
  "int_of_hex s = foldl (\<lambda>a c. 16 * a + hex_value c) 0 s"

text \<open>The format \<open>'%x' % n\<close> and, with zero padding to 32 digits, \<open>'%032x' % n\<close>.\<close>

fun hex_of_nat :: "nat \<Rightarrow> string" where
  "hex_of_nat n = (if n < 16 then [hex_char n] else hex_of_nat (n div 16) @ [hex_char (n mod 16)])"

declare hex_of_nat.simps [simp del]

definition hex032 :: "nat \<Rightarrow> string" where
  "hex032 n = replicate (32 - length (hex_of_nat n)) CHR ''0'' @ hex_of_nat n"

text \<open>
  \<open>uuid.UUID(hex)\<close> on a string of lower-case hexadecimal digits, which is what the caller
  passes: the value of its 32 digits, \<open>ValueError\<close> for another length. (The prefixes, braces
  and hyphens that the constructor strips from other strings are not modelled.)
\<close>

definition uuid_UUID :: "string \<Rightarrow> error + nat" where
  "uuid_UUID hex =
     (if length hex \<noteq> 32 \<or> \<not> list_all is_lower_hex hex
      then Inl (ValueError ''badly formed hexadecimal UUID string'')
      else Inr (int_of_hex hex))"

text \<open>\<open>str(u)\<close> for a UUID: the 32 digits in groups of 8, 4, 4, 4 and 12.\<close>

definition hyphenate :: "string \<Rightarrow> string" where
  "hyphenate hex =
     take 8 hex @ ''-'' @ take 4 (drop 8 hex) @ ''-'' @ take 4 (drop 12 hex) @ ''-'' @
       take 4 (drop 16 hex) @ ''-'' @ drop 20 hex"

definition uuid_str :: "nat \<Rightarrow> string" where
  "uuid_str u = hyphenate (hex032 u)"

subsection \<open>The identifier\<close>

text \<open>The string that is hashed: \<open>f"{agent}:{repo}:{issue}:{meeting_date}"\<close>.\<close>

definition identifier_string :: "string \<Rightarrow> string \<Rightarrow> int \<Rightarrow> string \<Rightarrow> string" where
  "identifier_string agent repo issue meeting_date =
     agent @ '':'' @ repo @ '':'' @ str_int issue @ '':'' @ meeting_date"

definition generate_deterministic_id ::
  "string \<Rightarrow> string \<Rightarrow> int \<Rightarrow> string \<Rightarrow> error + string" where
  "generate_deterministic_id agent repo issue meeting_date =
     (let identifier = identifier_string agent repo issue meeting_date;
          hash_hex = hexdigest (sha256 (utf8_encode identifier))
      in case uuid_UUID (take 32 hash_hex) of
           Inl e \<Rightarrow> Inl e
         | Inr u \<Rightarrow> Inr (uuid_str u))"

text \<open>
  The derivation as the specification words it: the fields joined with the delimiter,
  hashed, and the first 128 bits of the digest (its first 16 bytes) written as a UUID.
\<close>

definition uuid_of_bytes :: "u8 list \<Rightarrow> string" where
  "uuid_of_bytes bytes = hyphenate (hexdigest bytes)"

definition spec_deterministic_id :: "string \<Rightarrow> string \<Rightarrow> int \<Rightarrow> string \<Rightarrow> string" where
  "spec_deterministic_id agent repo issue meeting_date =
     uuid_of_bytes (take 16 (sha256 (utf8_encode
       (agent @ '':'' @ repo @ '':'' @ str_int issue @ '':'' @ meeting_date))))"

text \<open>Hexadecimal digits padded with zeros to a width.\<close>

definition hex_pad :: "nat \<Rightarrow> nat \<Rightarrow> string" where
  "hex_pad w n = replicate (w - length (hex_of_nat n)) CHR ''0'' @ hex_of_nat n"

text \<open>The inverses of \<open>hexdigest\<close> and of the UTF-8 encoding.\<close>

fun bytes_of_hex :: "string \<Rightarrow> u8 list" where
  "bytes_of_hex (a # b # rest) = of_nat (16 * hex_value a + hex_value b) # bytes_of_hex rest"
| "bytes_of_hex _ = []"

fun utf8_decode :: "u8 list \<Rightarrow> string" where
  "utf8_decode [] = []"
| "utf8_decode [b] = [char_of (unat b)]"
| "utf8_decode (b # b2 # rest) =
     (if unat b < 128 then char_of (unat b) # utf8_decode (b2 # rest)
      else char_of ((unat b - 192) * 64 + (unat b2 - 128)) # utf8_decode rest)"

section \<open>Upsert of meeting results (scripts/notion\_sync.py)\<close>

subsection \<open>The Notion database behind the client\<close>

text \<open>
  The values of the properties the script writes, and a page: its identifier and its
  properties, a dictionary in insertion order.
\<close>

datatype prop_value =
    Rich_Text string
  | Title string
  | Select string
  | Number int
  | Date string
  | Url string

type_synonym properties = "(string \<times> prop_value) list"

record page =
  pg_id :: string
  pg_properties :: properties

text \<open>
  The database of \<open>self.database_id\<close> as the client sees it: its pages in the order of
  their creation, the outcomes of the coming calls of the client (\<open>True\<close>: the call raises;
  when the list is used up, calls succeed), and the number from which the service makes
  the identifier of the next page.
\<close>

record notion =
  db_pages :: "page list"
  db_faults :: "bool list"
  db_next :: nat

definition client_call :: "notion \<Rightarrow> bool \<times> notion" where
  "client_call s = (case db_faults s of [] \<Rightarrow> (False, s) | f # fs \<Rightarrow> (f, s\<lparr>db_faults := fs\<rparr>))"

definition new_page_id :: "nat \<Rightarrow> string" where
  "new_page_id n = ''page-'' @ str_nat n"

text \<open>The \<open>Task ID\<close> of a page, and the filter of the query: rich text equal to a value.\<close>

definition has_task_id :: "string \<Rightarrow> page \<Rightarrow> bool" where
  "has_task_id v p = (map_of (pg_properties p) ''Task ID'' = Some (Rich_Text v))"

text \<open>\<open>client.databases.query\<close> with that filter: the matching pages, or the call raises.\<close>

definition databases_query :: "string \<Rightarrow> notion \<Rightarrow> (error + page list) \<times> notion" where
  "databases_query v s =
     (case client_call s of
        (True, s') \<Rightarrow> (Inl (APIError ''databases.query''), s')
      | (False, s') \<Rightarrow> (Inr (filter (has_task_id v) (db_pages s')), s'))"

text \<open>\<open>client.pages.create\<close>: a new page with the properties; the response carries its identifier.\<close>

definition pages_create :: "properties \<Rightarrow> notion \<Rightarrow> (error + string) \<times> notion" where
  "pages_create props s =
     (case client_call s of
        (True, s') \<Rightarrow> (Inl (APIError ''pages.create''), s')
      | (False, s') \<Rightarrow>
          (let new_id = new_page_id (db_next s') in
           (Inr new_id,
            s'\<lparr>db_pages := db_pages s' @ [\<lparr>pg_id = new_id, pg_properties = props\<rparr>],
                db_next := db_next s' + 1\<rparr>)))"

text \<open>
  \<open>client.pages.update\<close>: the properties given replace those of the same name, the others
  stay; a page that does not exist makes the call raise.
\<close>

definition merge_properties :: "properties \<Rightarrow> properties \<Rightarrow> properties" where
  "merge_properties old new = fold (\<lambda>(k, v). AList.update k v) new old"

definition updated_pages :: "string \<Rightarrow> properties \<Rightarrow> page list \<Rightarrow> page list" where
  "updated_pages page_id props ps =
     map (\<lambda>p. if pg_id p = page_id
            then p\<lparr>pg_properties := merge_properties (pg_properties p) props\<rparr> else p) ps"

definition pages_update :: "string \<Rightarrow> properties \<Rightarrow> notion \<Rightarrow> (error + unit) \<times> notion" where
  "pages_update page_id props s =
     (case client_call s of
        (True, s') \<Rightarrow> (Inl (APIError ''pages.update''), s')
      | (False, s') \<Rightarrow>
          (if page_id \<in> set (map pg_id (db_pages s')) then
             (Inr (), s'\<lparr>db_pages := updated_pages page_id props (db_pages s')\<rparr>)
           else (Inl (APIError ''pages.update''), s')))"

subsection \<open>The script\<close>

text \<open>
  The two library calls on dates that \<open>format_properties\<close> makes: \<open>strptime\<close> with the
  format \<open>%Y-%m-%d\<close> followed by \<open>isoformat\<close> (\<open>None\<close> for a \<open>ValueError\<close>), and the
  \<open>isoformat\<close> of \<open>datetime.utcnow()\<close>.
\<close>

record clock =
  strptime_iso :: "string \<Rightarrow> string option"
  utcnow_iso :: string

text \<open>Python's truth value of an optional number: \<open>None\<close> and 0 are false.\<close>

definition truthy_int :: "int option \<Rightarrow> bool" where
  "truthy_int v = (case v of None \<Rightarrow> False | Some n \<Rightarrow> n \<noteq> 0)"

definition format_properties ::
  "clock \<Rightarrow> string \<Rightarrow> string \<Rightarrow> string \<Rightarrow> int \<Rightarrow> int option \<Rightarrow> string \<Rightarrow> string \<Rightarrow> properties" where
  "format_properties clk deterministic_id agent repo issue pr meeting_date summary =
     (let meeting_datetime =
            (case strptime_iso clk meeting_date of Some stamp \<Rightarrow> stamp | None \<Rightarrow> utcnow_iso clk);
          issue_url = ''https://github.com/PR-CYBR/'' @ repo @ ''/issues/'' @ str_int issue;
          props =
            [(''Task ID'', Rich_Text deterministic_id),
             (''Title'', Title (take 100 summary)),
             (''Agent'', Select agent),
             (''Repository'', Rich_Text repo),
             (''Issue'', Number issue),
             (''Meeting Date'', Date meeting_datetime),
             (''Summary'', Rich_Text (take 2000 summary)),
             (''Issue URL'', Url issue_url),
             (''Status'', Select ''Complete'')]
      in if truthy_int pr
         then props @
           [(''PR'', Number (the pr)),
            (''PR URL'', Url (''https://github.com/PR-CYBR/'' @ repo @ ''/pull/'' @ str_int (the pr)))]
         else props)"

text \<open>\<open>search_existing_page\<close>: any exception of the query is caught and \<open>None\<close> returned.\<close>

definition search_existing_page :: "string \<Rightarrow> notion \<Rightarrow> string option \<times> notion" where
  "search_existing_page deterministic_id s =
     (case databases_query deterministic_id s of
        (Inl e, s') \<Rightarrow> (None, s')
      | (Inr results, s') \<Rightarrow>
          (case results of [] \<Rightarrow> (None, s') | p # rest \<Rightarrow> (Some (pg_id p), s')))"

definition create_page ::
  "clock \<Rightarrow> string \<Rightarrow> string \<Rightarrow> string \<Rightarrow> int \<Rightarrow> int option \<Rightarrow> string \<Rightarrow> string \<Rightarrow> notion \<Rightarrow>
     (error + string) \<times> notion" where
  "create_page clk deterministic_id agent repo issue pr meeting_date summary s =
     pages_create
       (format_properties clk deterministic_id agent repo issue pr meeting_date summary) s"

definition update_page ::
  "clock \<Rightarrow> string \<Rightarrow> string \<Rightarrow> string \<Rightarrow> string \<Rightarrow> int \<Rightarrow> int option \<Rightarrow> string \<Rightarrow> string \<Rightarrow>
     notion \<Rightarrow> (error + unit) \<times> notion" where
  "update_page clk page_id deterministic_id agent repo issue pr meeting_date summary s =
     pages_update page_id
       (format_properties clk deterministic_id agent repo issue pr meeting_date summary) s"

text \<open>The dictionary that \<open>upsert\<close> returns.\<close>

record upsert_result =
  res_status :: string
  res_page_id :: string
  res_deterministic_id :: string

definition upsert ::
  "clock \<Rightarrow> string \<Rightarrow> string \<Rightarrow> int \<Rightarrow> int option \<Rightarrow> string \<Rightarrow> string \<Rightarrow> notion \<Rightarrow>
     (error + upsert_result) \<times> notion" where
  "upsert clk agent repo issue pr meeting_date summary s =
     (case generate_deterministic_id agent repo issue meeting_date of
        Inl e \<Rightarrow> (Inl e, s)
      | Inr deterministic_id \<Rightarrow>
          (case search_existing_page deterministic_id s of
             (existing_page, s1) \<Rightarrow>
               (if truthy existing_page then
                  (case update_page clk (the existing_page) deterministic_id agent repo issue pr
                          meeting_date summary s1 of
                     (Inl e, s2) \<Rightarrow> (Inl e, s2)
                   | (Inr u, s2) \<Rightarrow>
                       (Inr \<lparr>res_status = ''updated'', res_page_id = the existing_page,
                             res_deterministic_id = deterministic_id\<rparr>, s2))
                else
                  (case create_page clk deterministic_id agent repo issue pr meeting_date
                          summary s1 of
                     (Inl e, s2) \<Rightarrow> (Inl e, s2)
                   | (Inr page_id, s2) \<Rightarrow>
                       (Inr \<lparr>res_status = ''created'', res_page_id = page_id,
                             res_deterministic_id = deterministic_id\<rparr>, s2)))))"

text \<open>
  \<open>main\<close> after the arguments are parsed: the two environment variables, then the upsert;
  the exit code, and the database afterwards.
\<close>

definition notion_sync_main ::
  "string option \<Rightarrow> string option \<Rightarrow> clock \<Rightarrow> string \<Rightarrow> string \<Rightarrow> int \<Rightarrow> int option \<Rightarrow>
     string \<Rightarrow> string \<Rightarrow> notion \<Rightarrow> int \<times> notion" where
  "notion_sync_main notion_token notion_database_id clk agent repo issue pr meeting_date summary s =
     (if \<not> truthy notion_token then (1, s)
      else if \<not> truthy notion_database_id then (1, s)
      else
        (case upsert clk agent repo issue pr meeting_date summary s of
           (Inl e, s') \<Rightarrow> (1, s')
         | (Inr result, s') \<Rightarrow> (0, s')))"

text \<open>The pages of a database that carry a given \<open>Task ID\<close>.\<close>

definition pages_with :: "string \<Rightarrow> notion \<Rightarrow> page list" where
  "pages_with v s = filter (has_task_id v) (db_pages s)"

text \<open>
  A database in which every page identifier is non-empty and occurs once, and none is an
  identifier that the service has still to give out.
\<close>

definition wf_notion :: "notion \<Rightarrow> bool" where
  "wf_notion s =
     (distinct (map pg_id (db_pages s)) \<and>
      (\<forall>p\<in>set (db_pages s). pg_id p \<noteq> [] \<and> (\<forall>n\<ge>db_next s. pg_id p \<noteq> new_page_id n)))"

text \<open>An empty database whose calls all succeed, and a clock, for the examples.\<close>

definition empty_db :: notion where
  "empty_db = \<lparr>db_pages = [], db_faults = [], db_next = 0\<rparr>"

definition sample_clock :: clock where
  "sample_clock =
     \<lparr>strptime_iso = (\<lambda>s. Some (s @ ''T00:00:00'')), utcnow_iso = ''2025-01-20T12:00:00''\<rparr>"

section \<open>Verification\<close>

section \<open>Decimal strings\<close>

lemma is_digit_digit_char: "d < 10 \<Longrightarrow> is_digit (digit_char d)"
  by (simp add: is_digit_def digit_char_def less_eq_char_def)

lemma of_char_digit_char: "d < 10 \<Longrightarrow> of_char (digit_char d) = 48 + d"
  by (simp add: digit_char_def)

lemma str_nat_not_Nil: "str_nat n \<noteq> []"
  by (subst str_nat.simps) simp

lemma str_nat_digits: "c \<in> set (str_nat n) \<Longrightarrow> is_digit c"
proof (induction n arbitrary: c rule: str_nat.induct)
  case (1 n)
  show ?case
  proof (cases "n < 10")
    case True
    then show ?thesis using "1.prems"
      by (subst (asm) str_nat.simps) (simp add: is_digit_digit_char)
  next
    case False
    then show ?thesis using "1.prems" "1.IH"
      by (subst (asm) str_nat.simps) (auto simp: is_digit_digit_char)
  qed
qed

lemma digits_value_str_nat: "digits_value (str_nat n) = n"
proof (induction n rule: str_nat.induct)
  case (1 n)
  show ?case
  proof (cases "n < 10")
    case True
    then show ?thesis
      by (subst str_nat.simps) (simp add: digits_value_def of_char_digit_char)
  next
    case False
    then have "digits_value (str_nat (n div 10)) = n div 10"
      using "1.IH" by simp
    then show ?thesis
      using False
      by (subst str_nat.simps) (simp add: digits_value_def of_char_digit_char)
  qed
qed

lemma str_nat_inj: "str_nat m = str_nat n \<Longrightarrow> m = n"
  by (metis digits_value_str_nat)

lemma length_str_nat_small:
  "n < 10 \<Longrightarrow> length (str_nat n) = 1"
  "n < 100 \<Longrightarrow> length (str_nat n) \<le> 2"
  "n < 1000 \<Longrightarrow> length (str_nat n) \<le> 3"
proof -
  show a: "length (str_nat n) = 1" if "n < 10" for n
    using that by (subst str_nat.simps) simp
  show b: "length (str_nat n) \<le> 2" if "n < 100" for n
    using that a [of "n div 10"] by (subst str_nat.simps) simp
  show "length (str_nat n) \<le> 3" if "n < 1000" for n
    using that b [of "n div 10"] by (subst str_nat.simps) simp
qed

lemma length_zero_pad: "length (zero_pad w n) = max w (length (str_nat n))"
  by (simp add: zero_pad_def)

section \<open>Properties of the task extractor\<close>

text \<open>
  The case mapping on examples: ASCII letters, and the sharp s, whose upper case is SS, so
  that a line beginning with it can contain the keyword SHOULD.
\<close>

lemma upper_examples:
  "upper ''Should fix'' = code_points ''SHOULD FIX''"
  "upper [char_of (223 :: nat)] = code_points ''SS''"
  "is_action_line (char_of (223 :: nat) # ''hould'')"
  "\<not> is_action_line ''hould''"
  by code_simp+

lemma stub_loop_eq:
  "c \<le> 10 \<Longrightarrow> stub_loop mid ls c acc =
     acc @ map (\<lambda>(i, l). make_task mid i l) (zip [c..<11] (filter is_action_line ls))"
proof (induction ls arbitrary: c acc)
  case Nil
  then show ?case by simp
next
  case (Cons line rest)
  show ?case
  proof (cases "is_action_line line")
    case False
    then show ?thesis using Cons by simp
  next
    case True
    have upt: "[c..<11] = c # [Suc c..<11]" using Cons.prems by (simp add: upt_conv_Cons)
    show ?thesis
    proof (cases "c = 10")
      case True
      then show ?thesis using \<open>is_action_line line\<close> by (simp add: Let_def)
    next
      case False
      then have "Suc c \<le> 10" using Cons.prems by simp
      from Cons.IH [OF this] show ?thesis using \<open>is_action_line line\<close> False upt Cons.prems
        by (simp add: Let_def)
    qed
  qed
qed

lemma extract_tasks_stub_eq:
  "extract_tasks_stub td =
     map (\<lambda>(i, l). make_task (meeting_of td) i l)
       (zip [1..<11] (filter is_action_line (transcript_lines td)))"
  by (simp add: extract_tasks_stub_def transcript_lines_def meeting_of_def stub_loop_eq)

lemma title_make_task: "task_title (make_task mid i l) = take 100 (strip l)"
  by (simp add: make_task_def)

lemma map_title_zip:
  "map task_title (map (\<lambda>(i, l). make_task mid i l) (zip [1..<11] ls)) =
     map (\<lambda>l. take 100 (strip l)) (take 10 ls)"
proof -
  have "map task_title (map (\<lambda>(i, l). make_task mid i l) (zip [1..<11] ls)) =
        map (\<lambda>l. take 100 (strip l)) (map snd (zip [1..<11] ls))"
    by (simp add: title_make_task case_prod_unfold)
  also have "map snd (zip [1..<11] ls) = take 10 ls"
    by (simp add: map_snd_zip_take min_def)
  finally show ?thesis .
qed

text \<open>
  Claim C5, as amended. The stub extractor produces one task for each of the first ten
  lines whose upper-cased text contains an action keyword, in order and numbered from 1,
  and no task for any other line; so the number of tasks is the number of matching lines
  capped at 10. The title of each task is the first 100 characters of its line after the
  surrounding whitespace has been stripped.
\<close>

theorem extract_tasks_stub_matching_lines:
  "extract_tasks_stub td =
     map (\<lambda>(i, l). make_task (meeting_of td) i l)
       (zip [1..<11] (filter is_action_line (transcript_lines td))) \<and>
   length (extract_tasks_stub td) =
     min 10 (length (filter is_action_line (transcript_lines td))) \<and>
   map task_title (extract_tasks_stub td) =
     map (\<lambda>l. take 100 (strip l)) (take 10 (filter is_action_line (transcript_lines td)))"
  unfolding extract_tasks_stub_eq map_title_zip by simp

theorem extract_tasks_stub_matching_lines_witness:
  "map task_title (extract_tasks_stub
     \<lparr>meeting_id = Some ''m'', transcript = Some (''hello'' @ [newline] @ '' fix it'')\<rparr>) =
   [''fix it'']"
proof -
  let ?td = "\<lparr>meeting_id = Some ''m'', transcript = Some (''hello'' @ [newline] @ '' fix it'')\<rparr>"
  have "map task_title (extract_tasks_stub ?td) =
      map (\<lambda>l. take 100 (strip l)) (take 10 (filter is_action_line (transcript_lines ?td)))"
    using extract_tasks_stub_matching_lines [of ?td] by (elim conjE)
  also have "\<dots> = [''fix it'']"
    by code_simp
  finally show ?thesis .
qed

text \<open>
  Claim C5 as stated fails on a line that starts with white space: the title is cut from
  the stripped line, not from the source line.
\<close>

theorem stub_title_counterexample:
  "map task_title (extract_tasks_stub \<lparr>meeting_id = Some ''m'', transcript = Some ''  TODO a''\<rparr>) \<noteq>
     map (take 100) (filter is_action_line (split_on newline ''  TODO a''))"
  by code_simp

text \<open>
  Claim C10. The tasks returned by the extraction entry point do not depend on the
  \<open>OPENAI_API_KEY\<close> environment variable: whether it is unset, empty or set to any value,
  the result is that of the stub extractor.
\<close>

theorem extract_tasks_with_llm_key_independent:
  "snd (extract_tasks_with_llm key1 td) = snd (extract_tasks_with_llm key2 td) \<and>
   snd (extract_tasks_with_llm key1 td) = extract_tasks_stub td"
  by (simp add: extract_tasks_with_llm_def)

section \<open>Properties of the release schedule\<close>

lemma weekday_range: "0 \<le> weekday d \<and> weekday d < 7"
  by (simp add: weekday_def)

lemma get_next_release_day_eq:
  assumes "MINORDINAL \<le> ordinal d" "ordinal d + 3 \<le> MAXORDINAL"
  shows "get_next_release_day d = Inr (replace_six (d\<lparr>ordinal := ordinal d +
     (if weekday d = 0 then 2 else if weekday d = 1 then 1 else if weekday d = 2 then 2
      else if weekday d = 3 then 1 else if weekday d = 4 then 3 else if weekday d = 5 then 2 else 1)\<rparr>))"
proof -
  have "weekday d \<in> {0, 1, 2, 3, 4, 5, 6}"
    using weekday_range [of d] by auto
  then show ?thesis
    using assms
    by (auto simp: get_next_release_day_def RELEASE_DAYS_def plus_days_def Let_def MINORDINAL_def)
qed

lemma next_after_eq:
  assumes "MINORDINAL \<le> ordinal d" "ordinal d + 4 \<le> MAXORDINAL"
  shows "next_after d = Inr (advance d)"
proof -
  let ?d' = "d\<lparr>ordinal := ordinal d + 1\<rparr>"
  have p: "plus_days d 1 = Inr ?d'"
    using assms by (simp add: plus_days_def MINORDINAL_def)
  have w: "weekday ?d' = (weekday d + 1) mod 7"
    by (simp add: weekday_def) presburger
  have r: "weekday d \<in> {0, 1, 2, 3, 4, 5, 6}"
    using weekday_range [of d] by auto
  have g: "get_next_release_day ?d' = Inr (replace_six (?d'\<lparr>ordinal := ordinal ?d' +
     (if weekday ?d' = 0 then 2 else if weekday ?d' = 1 then 1 else if weekday ?d' = 2 then 2
      else if weekday ?d' = 3 then 1 else if weekday ?d' = 4 then 3 else if weekday ?d' = 5 then 2 else 1)\<rparr>))"
    using assms by (intro get_next_release_day_eq) (simp_all add: MINORDINAL_def)
  have "next_after d = get_next_release_day ?d'"
    by (simp add: next_after_def p)
  also note g
  finally show ?thesis
    using r by (auto simp: w advance_def step_days_def replace_six_def)
qed

lemma advance_props:
  "at_six (advance d)" "weekday (advance d) \<in> {0, 2, 4}"
  "ordinal (advance d) = ordinal d + step_days (weekday d)"
  "ordinal d < ordinal (advance d)" "ordinal (advance d) \<le> ordinal d + 4"
proof -
  have r: "weekday d \<in> {0, 1, 2, 3, 4, 5, 6}"
    using weekday_range [of d] by auto
  show "at_six (advance d)" by (simp add: advance_def replace_six_def at_six_def)
  show o: "ordinal (advance d) = ordinal d + step_days (weekday d)"
    by (simp add: advance_def replace_six_def)
  show "ordinal d < ordinal (advance d)" "ordinal (advance d) \<le> ordinal d + 4"
    unfolding o by (simp_all add: step_days_def)
  have "weekday (advance d) = (weekday d + step_days (weekday d)) mod 7"
    unfolding weekday_def o by presburger
  then show "weekday (advance d) \<in> {0, 2, 4}"
    using r by (auto simp: step_days_def)
qed

lemma advance_cycle:
  assumes "weekday x = 0 \<or> weekday x = 2 \<or> weekday x = 4"
  shows "weekday (advance x) = (weekday x + 2) mod 6 \<and>
        ordinal (advance x) = ordinal x + (if weekday x = 4 then 3 else 2)"
proof -
  have o: "ordinal (advance x) = ordinal x + step_days (weekday x)"
    by (rule advance_props)
  have w: "weekday (advance x) = (weekday x + step_days (weekday x)) mod 7"
    unfolding weekday_def o by presburger
  from assms show ?thesis
  proof (elim disjE)
    assume "weekday x = 0"
    then show ?thesis using o w by (simp add: step_days_def)
  next
    assume "weekday x = 2"
    then show ?thesis using o w by (simp add: step_days_def)
  next
    assume "weekday x = 4"
    then show ?thesis using o w by (simp add: step_days_def)
  qed
qed

lemma season_loop_eq:
  "MINORDINAL \<le> ordinal cur \<Longrightarrow> ordinal cur + 4 * int (length eps) \<le> MAXORDINAL \<Longrightarrow>
   season_loop season eps cur sched =
     Inr (sched @ map (\<lambda>(e, d). (season, e, d)) (zip eps (walk cur (length eps))))"
proof (induction eps arbitrary: cur sched)
  case Nil
  then show ?case by simp
next
  case (Cons e eps)
  have n: "next_after cur = Inr (advance cur)"
    using Cons.prems by (intro next_after_eq) simp_all
  have "MINORDINAL \<le> ordinal (advance cur)"
    using Cons.prems(1) advance_props(4) [of cur] by simp
  moreover have "ordinal (advance cur) + 4 * int (length eps) \<le> MAXORDINAL"
    using Cons.prems(2) advance_props(5) [of cur] by simp
  ultimately show ?case
    using Cons.IH [of "advance cur"] by (simp add: n)
qed

lemma length_walk [simp]: "length (walk d n) = n"
  by (induction n arbitrary: d) simp_all

lemma walk_nth_Suc: "Suc i < n \<Longrightarrow> walk d n ! Suc i = advance (walk d n ! i)"
proof (induction n arbitrary: d i)
  case 0
  then show ?case by simp
next
  case (Suc n)
  show ?case
  proof (cases i)
    case 0
    then show ?thesis using Suc.prems by (cases n) simp_all
  next
    case (Suc j)
    then show ?thesis using Suc.IH [of j "advance d"] Suc.prems by simp
  qed
qed

lemma walk_nth_0: "0 < n \<Longrightarrow> walk d n ! 0 = d"
  by (cases n) simp_all

lemma release_dates_zip:
  "length eps = length ds \<Longrightarrow>
   release_dates (map (\<lambda>(e, d). (season, e, d)) (zip eps ds)) = ds"
  by (induction eps ds rule: list_induct2) (simp_all add: release_dates_def)

lemma entry_ids_zip:
  "length eps = length ds \<Longrightarrow>
   map (\<lambda>(s, e, d). (s, e)) (map (\<lambda>(e, d). (season, e, d)) (zip eps ds)) =
     map (\<lambda>e. (season, e)) eps"
  by (induction eps ds rule: list_induct2) simp_all

text \<open>
  Claim C3, as amended. The day after a Tuesday that \<open>get_next_release_day\<close> returns is
  the following Wednesday at 06:00. In the schedule generated from a start date on a
  Tuesday, the first release date is the start date itself, unchanged; every later release
  date is at 06:00 on a Monday, Wednesday or Friday and after the one before it; and after
  a release date on a Monday, Wednesday or Friday comes the next day of the cycle Monday,
  Wednesday, Friday, Monday of the following week. (The schedule is generated whenever the
  dates stay within the calendar.)
\<close>

theorem season_schedule_from_tuesday:
  assumes "weekday start = 1"
    and "MINORDINAL \<le> ordinal start"
    and "0 < episodes"
    and "ordinal start + 4 * episodes \<le> MAXORDINAL"
  shows "get_next_release_day start = Inr (replace_six (start\<lparr>ordinal := ordinal start + 1\<rparr>)) \<and>
    (\<exists>schedule. generate_season_schedule season episodes start = Inr schedule \<and>
       map (\<lambda>(s, e, d). (s, e)) schedule = map (\<lambda>e. (season, e)) [1..episodes] \<and>
       release_dates schedule ! 0 = start \<and>
       (\<forall>i. Suc i < length schedule \<longrightarrow>
          at_six (release_dates schedule ! Suc i) \<and>
          weekday (release_dates schedule ! Suc i) \<in> {0, 2, 4} \<and>
          ordinal (release_dates schedule ! i) < ordinal (release_dates schedule ! Suc i)) \<and>
       (\<forall>i. Suc i < length schedule \<longrightarrow> weekday (release_dates schedule ! i) \<in> {0, 2, 4} \<longrightarrow>
          weekday (release_dates schedule ! Suc i) = (weekday (release_dates schedule ! i) + 2) mod 6 \<and>
          ordinal (release_dates schedule ! Suc i) = ordinal (release_dates schedule ! i) +
            (if weekday (release_dates schedule ! i) = 4 then 3 else 2)))"
proof -
  let ?n = "nat episodes"
  let ?ds = "walk start ?n"
  let ?sched = "map (\<lambda>(e, d). (season, e, d)) (zip [1..episodes] ?ds)"
  have len: "length [1..episodes] = ?n" by simp
  have g: "generate_season_schedule season episodes start = Inr ?sched"
    unfolding generate_season_schedule_def
    using assms season_loop_eq [of start "[1..episodes]" season "[]"] by simp
  have rd: "release_dates ?sched = ?ds"
    by (rule release_dates_zip) simp
  have ids: "map (\<lambda>(s, e, d). (s, e)) ?sched = map (\<lambda>e. (season, e)) [1..episodes]"
    by (rule entry_ids_zip) simp
  have first: "get_next_release_day start =
      Inr (replace_six (start\<lparr>ordinal := ordinal start + 1\<rparr>))"
    using assms by (subst get_next_release_day_eq) simp_all
  have d0: "?ds ! 0 = start"
    using assms by (simp add: walk_nth_0)
  have later: "at_six (?ds ! Suc i) \<and> weekday (?ds ! Suc i) \<in> {0, 2, 4} \<and>
      ordinal (?ds ! i) < ordinal (?ds ! Suc i)" if "Suc i < ?n" for i
    using that advance_props [of "?ds ! i"] by (simp add: walk_nth_Suc)
  have cyc: "weekday (?ds ! Suc i) = (weekday (?ds ! i) + 2) mod 6 \<and>
      ordinal (?ds ! Suc i) = ordinal (?ds ! i) + (if weekday (?ds ! i) = 4 then 3 else 2)"
    if "Suc i < ?n" "weekday (?ds ! i) \<in> {0, 2, 4}" for i
  proof -
    define x where "x = ?ds ! i"
    have s: "?ds ! Suc i = advance x"
      using that(1) by (simp add: walk_nth_Suc x_def)
    have "weekday x = 0 \<or> weekday x = 2 \<or> weekday x = 4"
      using that(2) by (simp add: x_def)
    then have "weekday (advance x) = (weekday x + 2) mod 6 \<and>
        ordinal (advance x) = ordinal x + (if weekday x = 4 then 3 else 2)"
      by (rule advance_cycle)
    then show ?thesis
      unfolding s x_def .
  qed
  have lens: "length ?sched = ?n" by simp
  have "generate_season_schedule season episodes start = Inr ?sched \<and>
       map (\<lambda>(s, e, d). (s, e)) ?sched = map (\<lambda>e. (season, e)) [1..episodes] \<and>
       release_dates ?sched ! 0 = start \<and>
       (\<forall>i. Suc i < length ?sched \<longrightarrow>
          at_six (release_dates ?sched ! Suc i) \<and>
          weekday (release_dates ?sched ! Suc i) \<in> {0, 2, 4} \<and>
          ordinal (release_dates ?sched ! i) < ordinal (release_dates ?sched ! Suc i)) \<and>
       (\<forall>i. Suc i < length ?sched \<longrightarrow> weekday (release_dates ?sched ! i) \<in> {0, 2, 4} \<longrightarrow>
          weekday (release_dates ?sched ! Suc i) = (weekday (release_dates ?sched ! i) + 2) mod 6 \<and>
          ordinal (release_dates ?sched ! Suc i) = ordinal (release_dates ?sched ! i) +
            (if weekday (release_dates ?sched ! i) = 4 then 3 else 2))"
    unfolding rd lens using g ids d0 later cyc by blast
  then show ?thesis
    using first by blast
qed

theorem season_schedule_from_tuesday_witness:
  "weekday \<lparr>ordinal = 738887, hour = 6, minute = 0, second = 0, microsecond = 0\<rparr> = 1 \<and>
   get_next_release_day \<lparr>ordinal = 738887, hour = 6, minute = 0, second = 0, microsecond = 0\<rparr> =
     Inr \<lparr>ordinal = 738888, hour = 6, minute = 0, second = 0, microsecond = 0\<rparr> \<and>
   (\<exists>schedule.
      generate_season_schedule 1 3
        \<lparr>ordinal = 738887, hour = 6, minute = 0, second = 0, microsecond = 0\<rparr> = Inr schedule \<and>
      release_dates schedule ! 0 =
        \<lparr>ordinal = 738887, hour = 6, minute = 0, second = 0, microsecond = 0\<rparr>)"
proof -
  let ?t = "\<lparr>ordinal = 738887, hour = 6, minute = 0, second = 0, microsecond = 0\<rparr>"
  have h1: "weekday ?t = 1" by (simp add: weekday_def)
  have h2: "MINORDINAL \<le> ordinal ?t" by (simp add: MINORDINAL_def)
  have h3: "(0::int) < 3" by simp
  have h4: "ordinal ?t + 4 * 3 \<le> MAXORDINAL" by (simp add: MAXORDINAL_def)
  note t = season_schedule_from_tuesday [OF h1 h2 h3 h4, of 1]
  from t have a: "get_next_release_day ?t = Inr (replace_six (?t\<lparr>ordinal := ordinal ?t + 1\<rparr>))"
    by (rule conjunct1)
  from t have b: "\<exists>schedule. generate_season_schedule 1 3 ?t = Inr schedule \<and>
      release_dates schedule ! 0 = ?t"
    by blast
  show ?thesis
    using h1 a b by (simp add: replace_six_def)
qed

text \<open>
  Claim C3 as stated fails: from a Tuesday at 09:30 the first release date is that Tuesday
  at 09:30, not the following Wednesday at 06:00.
\<close>

theorem tuesday_schedule_counterexample:
  "weekday \<lparr>ordinal = 738887, hour = 9, minute = 30, second = 0, microsecond = 0\<rparr> = 1 \<and>
   generate_season_schedule 1 3
     \<lparr>ordinal = 738887, hour = 9, minute = 30, second = 0, microsecond = 0\<rparr> =
   Inr [(1, 1, \<lparr>ordinal = 738887, hour = 9, minute = 30, second = 0, microsecond = 0\<rparr>),
        (1, 2, \<lparr>ordinal = 738890, hour = 6, minute = 0, second = 0, microsecond = 0\<rparr>),
        (1, 3, \<lparr>ordinal = 738893, hour = 6, minute = 0, second = 0, microsecond = 0\<rparr>)]"
  by code_simp

section \<open>Properties of the code-name generator\<close>

lemma pool_loop_eq: "pool_loop symbols is acc = acc @ map (pool_symbol symbols) is"
  by (induction "is" arbitrary: acc) simp_all

lemma length_all_symbols: "length all_symbols = 96"
  by code_simp

lemma distinct_all_symbols: "distinct all_symbols"
  by (simp add: all_symbols_def)

lemma all_symbols_no_digit: "s \<in> set all_symbols \<Longrightarrow> c \<in> set s \<Longrightarrow> \<not> is_digit c"
proof -
  have "list_all (\<lambda>s. list_all (\<lambda>c. \<not> is_digit c) s) (concat (map snd SYMBOL_SETS))"
    by code_simp
  then show "s \<in> set all_symbols \<Longrightarrow> c \<in> set s \<Longrightarrow> \<not> is_digit c"
    unfolding all_symbols_def list_all_iff by auto
qed

lemma pool_symbol_split:
  "pool_symbol symbols i = symbols ! (i mod length symbols) @ suffix_of (i div length symbols)"
  by (simp add: pool_symbol_def suffix_of_def Let_def)

lemma suffix_of_digits: "c \<in> set (suffix_of k) \<Longrightarrow> is_digit c"
  by (auto simp: suffix_of_def str_nat_digits split: if_splits)

lemma suffix_of_inj: "suffix_of j = suffix_of k \<Longrightarrow> j = k"
  by (auto simp: suffix_of_def str_nat_not_Nil dest: str_nat_inj split: if_splits)
     (metis str_nat_not_Nil)+

lemma takeWhile_base:
  assumes "\<forall>c\<in>set b. \<not> is_digit c" "\<forall>c\<in>set s. is_digit c"
  shows "takeWhile (\<lambda>c. \<not> is_digit c) (b @ s) = b" "dropWhile (\<lambda>c. \<not> is_digit c) (b @ s) = s"
proof -
  have t: "takeWhile (\<lambda>c. \<not> is_digit c) s = []" using assms(2) by (cases s) simp_all
  have d: "dropWhile (\<lambda>c. \<not> is_digit c) s = s" using assms(2) by (cases s) simp_all
  show "takeWhile (\<lambda>c. \<not> is_digit c) (b @ s) = b"
    using assms(1) t by (simp add: takeWhile_append2)
  show "dropWhile (\<lambda>c. \<not> is_digit c) (b @ s) = s"
    using assms(1) d by (simp add: dropWhile_append2)
qed

lemma pool_symbol_inj:
  assumes "pool_symbol all_symbols i = pool_symbol all_symbols j"
  shows "i = j"
proof -
  let ?L = "length all_symbols"
  have L: "0 < ?L" by (simp add: length_all_symbols)
  have bi: "\<forall>c\<in>set (all_symbols ! (i mod ?L)). \<not> is_digit c"
    using all_symbols_no_digit [of "all_symbols ! (i mod ?L)"] L by simp
  have bj: "\<forall>c\<in>set (all_symbols ! (j mod ?L)). \<not> is_digit c"
    using all_symbols_no_digit [of "all_symbols ! (j mod ?L)"] L by simp
  have si: "\<forall>c\<in>set (suffix_of (i div ?L)). is_digit c"
    and sj: "\<forall>c\<in>set (suffix_of (j div ?L)). is_digit c"
    by (simp_all add: suffix_of_digits)
  have e: "all_symbols ! (i mod ?L) @ suffix_of (i div ?L) =
      all_symbols ! (j mod ?L) @ suffix_of (j div ?L)"
    using assms by (simp only: pool_symbol_split)
  have "all_symbols ! (i mod ?L) = all_symbols ! (j mod ?L)"
    using arg_cong [OF e, of "takeWhile (\<lambda>c. \<not> is_digit c)"]
    by (simp only: takeWhile_base(1) [OF bi si] takeWhile_base(1) [OF bj sj])
  then have m: "i mod ?L = j mod ?L"
    using distinct_all_symbols L by (simp add: nth_eq_iff_index_eq)
  have "suffix_of (i div ?L) = suffix_of (j div ?L)"
    using arg_cong [OF e, of "dropWhile (\<lambda>c. \<not> is_digit c)"]
    by (simp only: takeWhile_base(2) [OF bi si] takeWhile_base(2) [OF bj sj])
  then have d: "i div ?L = j div ?L"
    by (rule suffix_of_inj)
  show ?thesis
    using m d by (metis div_mult_mod_eq)
qed

lemma generate_symbol_pool_17_52:
  "generate_symbol_pool 17 52 = map (pool_symbol all_symbols) [0..<884]"
  by (simp add: generate_symbol_pool_def length_all_symbols pool_loop_eq)

lemma distinct_pool: "distinct (generate_symbol_pool 17 52)"
  unfolding generate_symbol_pool_17_52
  by (simp add: distinct_map inj_on_def) (blast dest: pool_symbol_inj)

lemma episode_loop_eq:
  "idx + length es \<le> length symbols \<Longrightarrow>
   episode_loop symbols s es idx acc =
     Inr (idx + length es, acc @ map mk_entry (zip (map (Pair s) es) (drop idx symbols)))"
proof (induction es arbitrary: idx acc)
  case Nil
  then show ?case by simp
next
  case (Cons e es)
  then have lt: "idx < length symbols" by simp
  have d: "drop idx symbols = symbols ! idx # drop (Suc idx) symbols"
    using lt by (simp add: Cons_nth_drop_Suc)
  have "Suc idx + length es \<le> length symbols" using Cons.prems by simp
  from Cons.IH [OF this] show ?case
    using lt by (simp add: d mk_entry_def Let_def)
qed

lemma zip_take_length: "zip xs (take (length xs) ys) = zip xs ys"
proof (induction xs arbitrary: ys)
  case Nil
  then show ?case by simp
next
  case (Cons x xs)
  then show ?case by (cases ys) simp_all
qed

lemma zip_append_drop:
  "zip (xs @ ys) zs = zip xs zs @ zip ys (drop (length xs) zs)"
  by (simp add: zip_append1 zip_take_length)

lemma code_names_loop_eq:
  "idx + length ss * length [1..eps] \<le> length symbols \<Longrightarrow>
   code_names_loop symbols eps ss idx acc =
     Inr (acc @ map mk_entry (zip (List.product ss [1..eps]) (drop idx symbols)))"
proof (induction ss arbitrary: idx acc)
  case Nil
  then show ?case by simp
next
  case (Cons s ss)
  let ?es = "[1..eps]"
  have a: "idx + length ?es \<le> length symbols" using Cons.prems by simp
  have b: "(idx + length ?es) + length ss * length ?es \<le> length symbols"
    using Cons.prems by (simp add: add.assoc)
  have z: "zip (map (Pair s) ?es @ List.product ss ?es) (drop idx symbols) =
      zip (map (Pair s) ?es) (drop idx symbols) @
      zip (List.product ss ?es) (drop (idx + length ?es) symbols)"
    by (simp only: zip_append_drop length_map drop_drop add.commute)
  show ?case
    using Cons.IH [OF b] by (simp add: episode_loop_eq [OF a] z del: upto.simps)
qed

lemma length_zero_pad_int:
  "0 \<le> s \<Longrightarrow> s < 100 \<Longrightarrow> length (zero_pad_int 2 s) = 2"
  "0 \<le> e \<Longrightarrow> e < 1000 \<Longrightarrow> length (zero_pad_int 3 e) = 3"
proof -
  show "length (zero_pad_int 2 s) = 2" if "0 \<le> s" "s < 100"
    using that length_str_nat_small(2) [of "nat s"]
    by (simp add: zero_pad_int_def length_zero_pad)
  show "length (zero_pad_int 3 e) = 3" if "0 \<le> e" "e < 1000"
    using that length_str_nat_small(3) [of "nat e"]
    by (simp add: zero_pad_int_def length_zero_pad)
qed

lemma drop_code_name:
  assumes "0 \<le> s" "s < 100" "0 \<le> e" "e < 1000"
  shows "drop 18 (generate_code_name s e symb) = symb"
proof -
  let ?pre = "CODE_PREFIX @ ''-S'' @ zero_pad_int 2 s @ ''-E'' @ zero_pad_int 3 e @
       ''-'' @ CODE_THEME @ ''-''"
  have l: "length ?pre = 18"
    using assms by (simp add: length_zero_pad_int CODE_PREFIX_def CODE_THEME_def)
  have "generate_code_name s e symb = ?pre @ symb"
    by (simp add: generate_code_name_def)
  then have "drop 18 (generate_code_name s e symb) = drop (length ?pre) (?pre @ symb)"
    by (simp only: l)
  then show ?thesis by (simp only: drop_append length_append drop_all) simp
qed

lemma symbols_of_entries:
  "length ps = length syms \<Longrightarrow> symbols_of (map mk_entry (zip ps syms)) = syms"
  by (induction ps syms rule: list_induct2) (simp_all add: symbols_of_def mk_entry_def split: prod.splits)

lemma drop_code_names_of_entries:
  "length ps = length syms \<Longrightarrow> \<forall>(s, e)\<in>set ps. 0 \<le> s \<and> s < 100 \<and> 0 \<le> e \<and> e < 1000 \<Longrightarrow>
   map (drop 18) (code_names_of (map mk_entry (zip ps syms))) = syms"
  by (induction ps syms rule: list_induct2)
     (auto simp: code_names_of_def mk_entry_def drop_code_name split: prod.splits)

lemma entries_are_code_names:
  "\<forall>(s, e, name, symb)\<in>set (map mk_entry xs). name = generate_code_name s e symb"
  by (auto simp: mk_entry_def split: prod.splits)

lemma generate_all_code_names_17_52:
  "generate_all_code_names 17 52 None =
     Inr (map mk_entry (zip (List.product [1..17] [1..52]) (generate_symbol_pool 17 52)))"
proof -
  have "0 + length [1..17::int] * length [1..52::int] \<le> length (generate_symbol_pool 17 52)"
    by (simp add: generate_symbol_pool_17_52)
  from code_names_loop_eq [OF this, of "[]"] show ?thesis
    by (simp add: generate_all_code_names_def del: upto.simps)
qed

text \<open>
  Claim C8. For 17 seasons of 52 episodes there are 96 distinct base symbols for 884
  episodes. The generator returns 884 entries; the symbol of entry \<open>96 * n + k\<close> is the
  \<open>k\<close>-th base symbol, bare for \<open>n = 0\<close> and followed by the decimal number \<open>n\<close> on its
  \<open>n\<close>-th reuse; every code name is built from its season, episode and symbol; and no two
  of the 884 code names are equal.
\<close>

theorem code_names_17_seasons_unique:
  "\<exists>entries. generate_all_code_names TOTAL_SEASONS EPISODES_PER_SEASON None = Inr entries \<and>
     length all_symbols = 96 \<and> length entries = 884 \<and>
     distinct (code_names_of entries) \<and>
     (\<forall>(season, episode, code_name, symbol)\<in>set entries.
        code_name = generate_code_name season episode symbol) \<and>
     (\<forall>k n. k < 96 \<longrightarrow> 96 * n + k < 884 \<longrightarrow>
        symbols_of entries ! (96 * n + k) =
          all_symbols ! k @ (if n = 0 then [] else str_nat n))"
proof -
  let ?ps = "List.product [1..17::int] [1..52::int]"
  let ?pool = "generate_symbol_pool 17 52"
  let ?entries = "map mk_entry (zip ?ps ?pool)"
  have lp: "length ?ps = 884" by simp
  have lpool: "length ?pool = 884" by (simp add: generate_symbol_pool_17_52)
  have len: "length ?ps = length ?pool" using lp lpool by simp
  have g: "generate_all_code_names TOTAL_SEASONS EPISODES_PER_SEASON None = Inr ?entries"
    by (simp only: TOTAL_SEASONS_def EPISODES_PER_SEASON_def generate_all_code_names_17_52)
  have le: "length ?entries = 884" using lp lpool by simp
  have rng: "\<forall>(s, e)\<in>set ?ps. 0 \<le> s \<and> s < 100 \<and> 0 \<le> e \<and> e < 1000"
    by auto
  have "distinct (map (drop 18) (code_names_of ?entries))"
    unfolding drop_code_names_of_entries [OF len rng] by (rule distinct_pool)
  then have dist: "distinct (code_names_of ?entries)"
    by (simp add: distinct_map)
  have names: "\<forall>(season, episode, code_name, symbol)\<in>set ?entries.
        code_name = generate_code_name season episode symbol"
    by (rule entries_are_code_names)
  have suf: "symbols_of ?entries ! (96 * n + k) =
      all_symbols ! k @ (if n = 0 then [] else str_nat n)" if "k < 96" "96 * n + k < 884" for k n
  proof -
    have "symbols_of ?entries ! (96 * n + k) = ?pool ! (96 * n + k)"
      by (simp only: symbols_of_entries [OF len])
    also have "\<dots> = pool_symbol all_symbols (96 * n + k)"
      using that by (simp add: generate_symbol_pool_17_52)
    also have "\<dots> = all_symbols ! k @ (if n = 0 then [] else str_nat n)"
      using that by (simp add: pool_symbol_def length_all_symbols Let_def)
    finally show ?thesis .
  qed
  show ?thesis
    using g le dist names suf length_all_symbols by blast
qed

theorem code_names_17_seasons_unique_witness:
  "\<exists>entries. generate_all_code_names 17 52 None = Inr entries \<and>
     symbols_of entries ! 4 = ''ARMED'' \<and> symbols_of entries ! 100 = ''ARMED1'' \<and>
     symbols_of entries ! 196 = ''ARMED2''"
proof -
  obtain entries where e: "generate_all_code_names TOTAL_SEASONS EPISODES_PER_SEASON None = Inr entries"
    and s: "\<And>k n. k < 96 \<Longrightarrow> 96 * n + k < 884 \<Longrightarrow>
        symbols_of entries ! (96 * n + k) = all_symbols ! k @ (if n = 0 then [] else str_nat n)"
    using code_names_17_seasons_unique by blast
  have a: "all_symbols ! 4 = ''ARMED''" by code_simp
  have n1: "str_nat 1 = ''1''" and n2: "str_nat 2 = ''2''" by code_simp+
  have "symbols_of entries ! 4 = ''ARMED''"
    using s [of 4 0] a by simp
  moreover have "symbols_of entries ! 100 = ''ARMED1''"
    using s [of 4 1] a n1 by simp
  moreover have "symbols_of entries ! 196 = ''ARMED2''"
    using s [of 4 2] a n2 by simp
  ultimately show ?thesis
    using e by (auto simp: TOTAL_SEASONS_def EPISODES_PER_SEASON_def)
qed

section \<open>Properties of the enrichment pipeline\<close>

lemma doc_titles_differ: "doc_title_of ep ''Show Notes'' \<noteq> doc_title_of ep ''Script''"
  by (simp add: doc_title_of_def)

lemma skips_prompt_input:
  "skips_populated ep (snd st) \<Longrightarrow>
   skips_populated ep (snd (guarded_step (a \<and> \<not> truthy (ep_script_doc_link ep))
     (process_prompt_input env ep) st))"
  by (cases st)
     (auto simp: skips_populated_def guarded_step_def process_prompt_input_def Let_def
        create_google_doc_def update_notion_property_def
        split: sum.splits option.splits if_splits prod.splits)

lemma skips_notebooklm:
  "skips_populated ep (snd st) \<Longrightarrow>
   skips_populated ep (snd (guarded_step (a \<and> \<not> truthy (ep_track_cloud ep))
     (process_notebooklm_integration env ep) st))"
  by (cases st)
     (auto simp: skips_populated_def guarded_step_def process_notebooklm_integration_def Let_def
        add_source_to_notebook_def generate_audio_overview_def update_notion_property_def
        split: sum.splits option.splits if_splits prod.splits)

lemma skips_audio_metadata:
  "skips_populated ep (snd st) \<Longrightarrow>
   skips_populated ep (snd (guarded_step (a \<and> \<not> truthy (ep_duration ep))
     (process_audio_metadata env ep) st))"
  by (cases st)
     (auto simp: skips_populated_def guarded_step_def process_audio_metadata_def Let_def
        update_notion_property_def
        split: sum.splits option.splits if_splits prod.splits)

lemma skips_show_notes:
  "skips_populated ep (snd st) \<Longrightarrow>
   skips_populated ep (snd (guarded_step (a \<and> \<not> truthy (ep_show_notes_link ep))
     (generate_and_upload_show_notes env ep) st))"
  by (cases st)
     (auto simp: skips_populated_def guarded_step_def generate_and_upload_show_notes_def Let_def
        create_google_doc_def update_notion_property_def doc_titles_differ
        split: sum.splits option.splits if_splits prod.splits)

lemma snd_retrofit:
  "snd (retrofit_episode env ep) =
   snd (guarded_step (truthy (ep_track_cloud ep) \<and> \<not> truthy (ep_show_notes_link ep))
          (generate_and_upload_show_notes env ep)
      (guarded_step (truthy (ep_track_cloud ep) \<and> \<not> truthy (ep_duration ep))
          (process_audio_metadata env ep)
      (guarded_step (truthy (ep_script_doc_link ep) \<and> \<not> truthy (ep_track_cloud ep))
          (process_notebooklm_integration env ep)
      (guarded_step (truthy (ep_prompt_input ep) \<and> \<not> truthy (ep_script_doc_link ep))
          (process_prompt_input env ep) (Inr True, [])))))"
  by (simp add: retrofit_episode_def Let_def split: prod.splits sum.splits)

lemma retrofit_all_populated:
  "truthy (ep_script_doc_link ep) \<Longrightarrow> truthy (ep_track_cloud ep) \<Longrightarrow>
   truthy (ep_duration ep) \<Longrightarrow> truthy (ep_show_notes_link ep) \<Longrightarrow>
   retrofit_episode env ep = (True, [])"
  by (simp add: retrofit_episode_def guarded_step_def)

text \<open>
  Claim C9. Whatever the episode and the surroundings, every call that \<open>retrofit_episode\<close>
  makes (creating a document, registering the audio source, writing a property) belongs
  to a step whose output field is absent from the episode: a step whose field is already
  populated is skipped. On an episode with all four fields populated the pipeline makes no
  call at all and returns \<open>True\<close>.
\<close>

theorem retrofit_episode_skips_populated_fields:
  "(\<forall>c\<in>set (snd (retrofit_episode env ep)). \<not> truthy (output_field ep (call_step ep c))) \<and>
   (truthy (ep_script_doc_link ep) \<and> truthy (ep_track_cloud ep) \<and>
    truthy (ep_duration ep) \<and> truthy (ep_show_notes_link ep) \<longrightarrow>
      retrofit_episode env ep = (True, []))"
proof -
  have "skips_populated ep (snd (Inr True :: error + bool, [] :: remote_call list))"
    by (simp add: skips_populated_def)
  then have "skips_populated ep (snd (retrofit_episode env ep))"
    unfolding snd_retrofit
    by (intro skips_show_notes skips_audio_metadata skips_notebooklm skips_prompt_input)
  then show ?thesis
    using retrofit_all_populated [of ep env] by (simp add: skips_populated_def)
qed

theorem retrofit_episode_skips_populated_fields_witness:
  "retrofit_episode sample_env enriched_episode = (True, []) \<and>
   call_step enriched_episode
     (Pages_Update ''page-1'' ''Duration'' ''45:30'' ''rich_text'') = Duration_Extraction \<and>
   Pages_Update ''page-1'' ''Duration'' ''45:30'' ''rich_text''
     \<notin> set (snd (retrofit_episode sample_env enriched_episode))"
proof -
  have t: "truthy (ep_script_doc_link enriched_episode) \<and> truthy (ep_track_cloud enriched_episode) \<and>
    truthy (ep_duration enriched_episode) \<and> truthy (ep_show_notes_link enriched_episode)"
    by (simp add: enriched_episode_def truthy_def)
  note th = retrofit_episode_skips_populated_fields [of sample_env enriched_episode]
  from th t have r: "retrofit_episode sample_env enriched_episode = (True, [])"
    by blast
  from th have "\<forall>c\<in>set (snd (retrofit_episode sample_env enriched_episode)).
      \<not> truthy (output_field enriched_episode (call_step enriched_episode c))"
    by blast
  then have "Pages_Update ''page-1'' ''Duration'' ''45:30'' ''rich_text''
     \<notin> set (snd (retrofit_episode sample_env enriched_episode))"
    using t by auto
  then show ?thesis using r by simp
qed

section \<open>Properties of the deterministic identifier\<close>

lemma length_sha256: "length (sha256 msg) = 32"
  by (simp add: sha256_def word_bytes_def Let_def split: prod.splits)

lemma length_hexdigest: "length (hexdigest bytes) = 2 * length bytes"
  by (induction bytes) (simp_all add: hexdigest_def hex_byte_def)

lemma take_hexdigest: "take (2 * n) (hexdigest bytes) = hexdigest (take n bytes)"
proof (induction bytes arbitrary: n)
  case Nil
  then show ?case by (simp add: hexdigest_def)
next
  case (Cons b bytes)
  show ?case
  proof (cases n)
    case 0
    then show ?thesis by (simp add: hexdigest_def)
  next
    case (Suc m)
    have "take (2 * m) (hexdigest bytes) = hexdigest (take m bytes)" by (rule Cons.IH)
    then show ?thesis using Suc by (simp add: hexdigest_def hex_byte_def)
  qed
qed

lemma is_lower_hex_hex_char: "d < 16 \<Longrightarrow> is_lower_hex (hex_char d)"
  by (simp add: is_lower_hex_def hex_char_def less_eq_char_def)

lemma hex_value_hex_char: "d < 16 \<Longrightarrow> hex_value (hex_char d) = d"
  by (simp add: hex_value_def hex_char_def less_eq_char_def)

lemma hex_char_hex_value: "is_lower_hex c \<Longrightarrow> hex_char (hex_value c) = c \<and> hex_value c < 16"
proof -
  assume a: "is_lower_hex c"
  define n where "n = (of_char c :: nat)"
  have c: "c = char_of n" by (simp add: n_def)
  have "(48 \<le> n \<and> n \<le> 57) \<or> (97 \<le> n \<and> n \<le> 102)"
    using a by (simp add: is_lower_hex_def less_eq_char_def n_def)
  then show ?thesis
    by (auto simp: hex_value_def hex_char_def less_eq_char_def c)
qed

lemma lower_hex_hexdigest: "list_all is_lower_hex (hexdigest bytes)"
proof (induction bytes)
  case Nil
  then show ?case by (simp add: hexdigest_def)
next
  case (Cons b bytes)
  have "unat b < 2 ^ LENGTH(8)" by (rule unsigned_less)
  then have "unat b < 256" by simp
  then have "unat b div 16 < 16" by simp
  then show ?case using Cons
    by (simp add: hexdigest_def hex_byte_def is_lower_hex_hex_char)
qed

lemma int_of_hex_snoc: "int_of_hex (s @ [c]) = 16 * int_of_hex s + hex_value c"
  by (simp add: int_of_hex_def)

lemma hex_of_nat_step:
  "d < 16 \<Longrightarrow> hex_of_nat (16 * v + d) =
     (if v = 0 then [hex_char d] else hex_of_nat v @ [hex_char d])"
  by (subst hex_of_nat.simps) simp

lemma hex_of_nat_0: "hex_of_nat 0 = ''0''"
  by code_simp

lemma hex_pad_int_of_hex:
  "list_all is_lower_hex s \<Longrightarrow> s \<noteq> [] \<Longrightarrow>
   length (hex_of_nat (int_of_hex s)) \<le> length s \<and> hex_pad (length s) (int_of_hex s) = s"
proof (induction s rule: rev_induct)
  case Nil
  then show ?case by simp
next
  case (snoc c s)
  have c: "hex_char (hex_value c) = c" "hex_value c < 16"
    using snoc.prems(1) hex_char_hex_value [of c] by simp_all
  show ?case
  proof (cases "s = []")
    case True
    then show ?thesis
      using c by (simp add: int_of_hex_def hex_pad_def hex_of_nat_step [of _ 0, simplified])
  next
    case False
    have IH: "length (hex_of_nat (int_of_hex s)) \<le> length s"
      "hex_pad (length s) (int_of_hex s) = s"
      using snoc.IH snoc.prems(1) False by simp_all
    show ?thesis
    proof (cases "int_of_hex s = 0")
      case True
      have "replicate (length s - 1) CHR ''0'' @ ''0'' = s"
        using IH(2) by (simp add: hex_pad_def True hex_of_nat_0)
      moreover have "replicate (length s - 1) CHR ''0'' @ ''0'' = replicate (length s) CHR ''0''"
        using False by (cases s) (simp_all add: replicate_append_same)
      ultimately have "replicate (length s) CHR ''0'' = s" by simp
      then show ?thesis
        using c by (simp add: int_of_hex_snoc True hex_pad_def hex_of_nat_step [of _ 0, simplified])
    next
      case nz: False
      have h: "hex_of_nat (int_of_hex (s @ [c])) = hex_of_nat (int_of_hex s) @ [c]"
        using c nz by (simp add: int_of_hex_snoc hex_of_nat_step)
      show ?thesis
        using IH by (simp add: h hex_pad_def)
    qed
  qed
qed

lemma hex032_int_of_hex:
  "list_all is_lower_hex s \<Longrightarrow> length s = 32 \<Longrightarrow> hex032 (int_of_hex s) = s"
proof -
  assume a: "list_all is_lower_hex s" and l: "length s = 32"
  from l have "s \<noteq> []" by auto
  from hex_pad_int_of_hex [OF a this] show ?thesis
    by (simp add: hex032_def hex_pad_def l)
qed

lemma length_hyphenate: "length hex = 32 \<Longrightarrow> length (hyphenate hex) = 36"
  by (simp add: hyphenate_def)

lemma list_all_take: "list_all P xs \<Longrightarrow> list_all P (take n xs)"
  by (auto simp: list_all_iff dest: in_set_takeD)

lemma generate_deterministic_id_eq:
  "generate_deterministic_id agent repo issue meeting_date =
     Inr (uuid_of_bytes (take 16 (sha256 (utf8_encode
       (identifier_string agent repo issue meeting_date)))))"
proof -
  let ?digest = "sha256 (utf8_encode (identifier_string agent repo issue meeting_date))"
  let ?hex = "take 32 (hexdigest ?digest)"
  have l: "length ?hex = 32"
    by (simp add: length_hexdigest length_sha256)
  have a: "list_all is_lower_hex ?hex"
    by (intro list_all_take lower_hex_hexdigest)
  have u: "uuid_UUID ?hex = Inr (int_of_hex ?hex)"
    using l a by (simp add: uuid_UUID_def)
  have r: "hex032 (int_of_hex ?hex) = ?hex"
    using a l by (rule hex032_int_of_hex)
  have t: "?hex = hexdigest (take 16 ?digest)"
    using take_hexdigest [of 16 ?digest] by simp
  have "generate_deterministic_id agent repo issue meeting_date = Inr (hyphenate ?hex)"
    by (simp add: generate_deterministic_id_def Let_def u uuid_str_def r)
  then show ?thesis
    by (simp only: t uuid_of_bytes_def)
qed

lemma length_uuid_of_bytes: "length bytes = 16 \<Longrightarrow> length (uuid_of_bytes bytes) = 36"
  by (simp add: uuid_of_bytes_def length_hyphenate length_hexdigest)

text \<open>
  Claim C6. The identifier is a function of the four fields alone, so deriving it twice
  from the same tuple gives the same string. It never fails, and it is the derivation the
  specification describes: the fields joined with a colon, the SHA-256 digest of the UTF-8
  bytes, and the first 128 bits of the digest written as a UUID of 36 characters.
\<close>

theorem deterministic_id_is_uuid_of_first_128_bits:
  "generate_deterministic_id agent repo issue meeting_date =
     Inr (spec_deterministic_id agent repo issue meeting_date) \<and>
   length (spec_deterministic_id agent repo issue meeting_date) = 36"
proof -
  have "spec_deterministic_id agent repo issue meeting_date =
      uuid_of_bytes (take 16 (sha256 (utf8_encode
        (identifier_string agent repo issue meeting_date))))"
    by (simp add: spec_deterministic_id_def identifier_string_def)
  then show ?thesis
    by (simp add: generate_deterministic_id_eq length_uuid_of_bytes length_sha256)
qed

theorem deterministic_id_is_uuid_of_first_128_bits_witness:
  "generate_deterministic_id ''A-01'' ''PR-CYBR-AGENT-01'' 123 ''2025-01-15'' =
     Inr (spec_deterministic_id ''A-01'' ''PR-CYBR-AGENT-01'' 123 ''2025-01-15'') \<and>
   length (spec_deterministic_id ''A-01'' ''PR-CYBR-AGENT-01'' 123 ''2025-01-15'') = 36"
  by (rule deterministic_id_is_uuid_of_first_128_bits)

lemma take_20_parts:
  "take 20 h = take 8 h @ take 4 (drop 8 h) @ take 4 (drop 12 h) @ take 4 (drop 16 h)"
proof -
  have a: "take 12 h = take 8 h @ take 4 (drop 8 h)" using take_add [of 8 4 h] by simp
  have b: "take 16 h = take 12 h @ take 4 (drop 12 h)" using take_add [of 12 4 h] by simp
  have c: "take 20 h = take 16 h @ take 4 (drop 16 h)" using take_add [of 16 4 h] by simp
  show ?thesis by (simp only: a b c append_assoc)
qed

lemma hyphenate_inj:
  assumes "length h1 = 32" "length h2 = 32" "hyphenate h1 = hyphenate h2"
  shows "h1 = h2"
proof -
  from assms have "take 8 h1 = take 8 h2 \<and> take 4 (drop 8 h1) = take 4 (drop 8 h2) \<and>
      take 4 (drop 12 h1) = take 4 (drop 12 h2) \<and> take 4 (drop 16 h1) = take 4 (drop 16 h2) \<and>
      drop 20 h1 = drop 20 h2"
    by (simp add: hyphenate_def)
  then have "take 20 h1 = take 20 h2 \<and> drop 20 h1 = drop 20 h2"
    by (simp only: take_20_parts)
  then have "take 20 h1 @ drop 20 h1 = take 20 h2 @ drop 20 h2"
    by (simp only:)
  then show ?thesis
    by (simp only: append_take_drop_id)
qed

lemma bytes_of_hexdigest: "bytes_of_hex (hexdigest bytes) = bytes"
proof (induction bytes)
  case Nil
  then show ?case by (simp add: hexdigest_def)
next
  case (Cons b bytes)
  have "unat b < 2 ^ LENGTH(8)" by (rule unsigned_less)
  then have "unat b div 16 < 16" "unat b mod 16 < 16" by simp_all
  then have "16 * hex_value (hex_char (unat b div 16)) + hex_value (hex_char (unat b mod 16)) = unat b"
    by (simp add: hex_value_hex_char)
  then have "bytes_of_hex (hex_byte b @ hexdigest bytes) = b # bytes_of_hex (hexdigest bytes)"
    by (simp add: hex_byte_def)
  then show ?case using Cons
    by (simp add: hexdigest_def)
qed

lemma uuid_of_bytes_inj:
  assumes "length b1 = 16" "length b2 = 16" "uuid_of_bytes b1 = uuid_of_bytes b2"
  shows "b1 = b2"
proof -
  have "hyphenate (hexdigest b1) = hyphenate (hexdigest b2)"
    using assms(3) by (simp only: uuid_of_bytes_def)
  moreover have "length (hexdigest b1) = 32" "length (hexdigest b2) = 32"
    using assms(1,2) by (simp_all add: length_hexdigest)
  ultimately have "hexdigest b1 = hexdigest b2"
    using hyphenate_inj by blast
  then have "bytes_of_hex (hexdigest b1) = bytes_of_hex (hexdigest b2)"
    by (simp only:)
  then show ?thesis
    by (simp only: bytes_of_hexdigest)
qed

lemma utf8_decode_low:
  "unat b < 128 \<Longrightarrow> utf8_decode (b # bs) = char_of (unat b) # utf8_decode bs"
  by (cases bs) simp_all

lemma utf8_decode_high:
  "\<not> unat b < 128 \<Longrightarrow>
   utf8_decode (b # b2 # bs) = char_of ((unat b - 192) * 64 + (unat b2 - 128)) # utf8_decode bs"
  by simp

lemma unat_of_nat_u8: "n < 256 \<Longrightarrow> unat (of_nat n :: u8) = n"
  by (simp only: unat_of_nat) simp

lemma utf8_decode_char: "utf8_decode (utf8_char c @ bs) = c # utf8_decode bs"
proof -
  define n where "n = (of_char c :: nat)"
  have n: "n < 256" "char_of n = c" by (simp_all add: n_def)
  show ?thesis
  proof (cases "n < 128")
    case True
    have e: "utf8_char c = [of_nat n]"
      using True by (simp only: utf8_char_def n_def [symmetric] Let_def if_True)
    have u: "unat (of_nat n :: u8) = n"
      using n(1) by (rule unat_of_nat_u8)
    have "unat (of_nat n :: u8) < 128" using True by (simp only: u)
    then have "utf8_decode (of_nat n # bs) = char_of (unat (of_nat n :: u8)) # utf8_decode bs"
      by (rule utf8_decode_low)
    then show ?thesis
      by (simp only: e u n(2) append_Cons append_Nil)
  next
    case False
    have e: "utf8_char c = [of_nat (192 + n div 64), of_nat (128 + n mod 64)]"
      using False by (simp only: utf8_char_def n_def [symmetric] Let_def if_False)
    have d: "n div 64 = 2 \<or> n div 64 = 3" using False n(1) by auto
    then have "192 + n div 64 < 256" by auto
    then have u1: "unat (of_nat (192 + n div 64) :: u8) = 192 + n div 64"
      by (rule unat_of_nat_u8)
    have "128 + n mod 64 < 256" by simp
    then have u2: "unat (of_nat (128 + n mod 64) :: u8) = 128 + n mod 64"
      by (rule unat_of_nat_u8)
    have v: "(192 + n div 64 - 192) * 64 + (128 + n mod 64 - 128) = n" by simp
    have "\<not> unat (of_nat (192 + n div 64) :: u8) < 128" unfolding u1 by simp
    then have "utf8_decode (of_nat (192 + n div 64) # of_nat (128 + n mod 64) # bs) =
        char_of ((unat (of_nat (192 + n div 64) :: u8) - 192) * 64 +
          (unat (of_nat (128 + n mod 64) :: u8) - 128)) # utf8_decode bs"
      by (rule utf8_decode_high)
    then show ?thesis
      by (simp only: e u1 u2 v n(2) append_Cons append_Nil)
  qed
qed

lemma utf8_decode_encode: "utf8_decode (utf8_encode s) = s"
proof (induction s)
  case Nil
  then show ?case by (simp add: utf8_encode_def)
next
  case (Cons c s)
  have "utf8_encode (c # s) = utf8_char c @ utf8_encode s"
    by (simp add: utf8_encode_def)
  then show ?case
    using Cons by (simp only: utf8_decode_char)
qed

lemma utf8_encode_inj:
  assumes "utf8_encode s = utf8_encode t"
  shows "s = t"
proof -
  have "utf8_decode (utf8_encode s) = utf8_decode (utf8_encode t)"
    by (simp only: assms)
  then show ?thesis
    by (simp only: utf8_decode_encode)
qed

lemma append_sep_eq:
  assumes "c \<notin> set x" "c \<notin> set y" "x @ c # u = y @ c # v"
  shows "x = y \<and> u = v"
proof -
  have tx: "takeWhile (\<lambda>z. z \<noteq> c) (x @ c # u) = x"
    using assms(1) by (auto simp: takeWhile_tail takeWhile_eq_all_conv)
  have ty: "takeWhile (\<lambda>z. z \<noteq> c) (y @ c # v) = y"
    using assms(2) by (auto simp: takeWhile_tail takeWhile_eq_all_conv)
  have "x = y" using tx ty assms(3) by simp
  then show ?thesis using assms(3) by simp
qed

lemma colon_not_digit: "\<not> is_digit CHR '':''" "\<not> is_digit CHR ''-''"
  by (simp_all add: is_digit_def less_eq_char_def)

lemma colon_not_in_str_nat: "CHR '':'' \<notin> set (str_nat n)"
  using str_nat_digits [of "CHR '':''" n] colon_not_digit by blast

lemma colon_not_in_str_int: "CHR '':'' \<notin> set (str_int i)"
  by (simp add: str_int_def colon_not_in_str_nat)

lemma str_nat_not_minus: "str_nat n \<noteq> CHR ''-'' # s"
proof
  assume "str_nat n = CHR ''-'' # s"
  then have "CHR ''-'' \<in> set (str_nat n)" by simp
  then show False using str_nat_digits colon_not_digit(2) by blast
qed

lemma str_int_inj: "str_int i = str_int j \<Longrightarrow> i = j"
proof -
  assume e: "str_int i = str_int j"
  show "i = j"
  proof (cases "i < 0")
    case True
    show ?thesis
    proof (cases "j < 0")
      case jn: True
      have "str_nat (nat (- i)) = str_nat (nat (- j))"
        using e True jn by (simp add: str_int_def)
      then have "nat (- i) = nat (- j)" by (rule str_nat_inj)
      then show ?thesis using True jn by simp
    next
      case False
      then show ?thesis
        using e True str_nat_not_minus [of "nat j" "str_nat (nat (- i))"] by (simp add: str_int_def)
    qed
  next
    case False
    show ?thesis
    proof (cases "j < 0")
      case True
      then show ?thesis
        using e False str_nat_not_minus [of "nat i" "str_nat (nat (- j))"] by (simp add: str_int_def)
    next
      case jp: False
      have "str_nat (nat i) = str_nat (nat j)"
        using e False jp by (simp add: str_int_def)
      then have "nat i = nat j" by (rule str_nat_inj)
      then show ?thesis using False jp by simp
    qed
  qed
qed

lemma identifier_string_inj:
  assumes "CHR '':'' \<notin> set agent1" "CHR '':'' \<notin> set repo1"
    and "CHR '':'' \<notin> set agent2" "CHR '':'' \<notin> set repo2"
    and "identifier_string agent1 repo1 issue1 date1 = identifier_string agent2 repo2 issue2 date2"
  shows "agent1 = agent2 \<and> repo1 = repo2 \<and> issue1 = issue2 \<and> date1 = date2"
proof -
  have e: "agent1 @ CHR '':'' # (repo1 @ CHR '':'' # (str_int issue1 @ CHR '':'' # date1)) =
      agent2 @ CHR '':'' # (repo2 @ CHR '':'' # (str_int issue2 @ CHR '':'' # date2))"
    using assms(5) by (simp add: identifier_string_def)
  from append_sep_eq [OF assms(1) assms(3) e]
  have a: "agent1 = agent2"
    and e2: "repo1 @ CHR '':'' # (str_int issue1 @ CHR '':'' # date1) =
      repo2 @ CHR '':'' # (str_int issue2 @ CHR '':'' # date2)"
    by simp_all
  from append_sep_eq [OF assms(2) assms(4) e2]
  have r: "repo1 = repo2"
    and e3: "str_int issue1 @ CHR '':'' # date1 = str_int issue2 @ CHR '':'' # date2"
    by simp_all
  from append_sep_eq [OF colon_not_in_str_int colon_not_in_str_int e3]
  have "str_int issue1 = str_int issue2" and d: "date1 = date2"
    by simp_all
  then have "issue1 = issue2" using str_int_inj by blast
  then show ?thesis using a r d by simp
qed

text \<open>
  Claim C7, as amended. For two tuples that differ in a stable field and whose agent and
  repository names contain no colon, the strings that are hashed differ, and so do their
  UTF-8 bytes; the two identifiers are equal exactly when the first 128 bits of the
  SHA-256 digests of these two different messages are equal, that is, only by a collision
  of the truncated hash.
\<close>

theorem distinct_tuples_distinct_ids_up_to_collision:
  assumes "CHR '':'' \<notin> set agent1" "CHR '':'' \<notin> set repo1"
    and "CHR '':'' \<notin> set agent2" "CHR '':'' \<notin> set repo2"
    and "(agent1, repo1, issue1, date1) \<noteq> (agent2, repo2, issue2, date2)"
  shows "identifier_string agent1 repo1 issue1 date1 \<noteq> identifier_string agent2 repo2 issue2 date2 \<and>
    utf8_encode (identifier_string agent1 repo1 issue1 date1) \<noteq>
      utf8_encode (identifier_string agent2 repo2 issue2 date2) \<and>
    (generate_deterministic_id agent1 repo1 issue1 date1 =
       generate_deterministic_id agent2 repo2 issue2 date2 \<longleftrightarrow>
     take 16 (sha256 (utf8_encode (identifier_string agent1 repo1 issue1 date1))) =
       take 16 (sha256 (utf8_encode (identifier_string agent2 repo2 issue2 date2))))"
proof -
  let ?s1 = "identifier_string agent1 repo1 issue1 date1"
  let ?s2 = "identifier_string agent2 repo2 issue2 date2"
  have ne: "?s1 \<noteq> ?s2"
    using identifier_string_inj [OF assms(1-4)] assms(5) by blast
  have ne8: "utf8_encode ?s1 \<noteq> utf8_encode ?s2"
    using ne utf8_encode_inj by blast
  have g1: "generate_deterministic_id agent1 repo1 issue1 date1 =
      Inr (uuid_of_bytes (take 16 (sha256 (utf8_encode ?s1))))"
    by (rule generate_deterministic_id_eq)
  have g2: "generate_deterministic_id agent2 repo2 issue2 date2 =
      Inr (uuid_of_bytes (take 16 (sha256 (utf8_encode ?s2))))"
    by (rule generate_deterministic_id_eq)
  have l: "length (take 16 (sha256 (utf8_encode ?s1))) = 16"
    "length (take 16 (sha256 (utf8_encode ?s2))) = 16"
    by (simp_all add: length_sha256)
  have "generate_deterministic_id agent1 repo1 issue1 date1 =
       generate_deterministic_id agent2 repo2 issue2 date2 \<longleftrightarrow>
     take 16 (sha256 (utf8_encode ?s1)) = take 16 (sha256 (utf8_encode ?s2))"
    unfolding g1 g2 using uuid_of_bytes_inj [OF l] by auto
  then show ?thesis using ne ne8 by blast
qed

theorem distinct_tuples_distinct_ids_up_to_collision_witness:
  "identifier_string ''A-01'' ''PR-CYBR-AGENT-01'' 123 ''2025-01-15'' \<noteq>
     identifier_string ''A-01'' ''PR-CYBR-AGENT-01'' 124 ''2025-01-15'' \<and>
   identifier_string ''A-01'' ''PR-CYBR-AGENT-01'' 123 ''2025-01-15'' =
     ''A-01:PR-CYBR-AGENT-01:123:2025-01-15''"
proof -
  have "identifier_string ''A-01'' ''PR-CYBR-AGENT-01'' 123 ''2025-01-15'' \<noteq>
     identifier_string ''A-01'' ''PR-CYBR-AGENT-01'' 124 ''2025-01-15''"
    using distinct_tuples_distinct_ids_up_to_collision
      [of "''A-01''" "''PR-CYBR-AGENT-01''" "''A-01''" "''PR-CYBR-AGENT-01''" 123 "''2025-01-15''" 124 "''2025-01-15''"]
    by simp
  moreover have "identifier_string ''A-01'' ''PR-CYBR-AGENT-01'' 123 ''2025-01-15'' =
     ''A-01:PR-CYBR-AGENT-01:123:2025-01-15''"
    by code_simp
  ultimately show ?thesis by simp
qed

text \<open>
  Claim C7 as stated fails: the delimiter may occur in a field, and then two different
  tuples are joined to the same string and get the same identifier.
\<close>

theorem colon_in_field_counterexample:
  "(''a:b'', ''c'', 1 :: int, ''d'') \<noteq> (''a'', ''b:c'', 1, ''d'') \<and>
   generate_deterministic_id ''a:b'' ''c'' 1 ''d'' = generate_deterministic_id ''a'' ''b:c'' 1 ''d''"
proof -
  have "identifier_string ''a:b'' ''c'' 1 ''d'' = identifier_string ''a'' ''b:c'' 1 ''d''"
    by (simp add: identifier_string_def)
  then show ?thesis
    by (simp add: generate_deterministic_id_def)
qed

subsection \<open>Upsert of meeting results\<close>

lemma generate_deterministic_id_spec:
  "generate_deterministic_id agent repo issue meeting_date =
     Inr (spec_deterministic_id agent repo issue meeting_date)"
  by (simp add: generate_deterministic_id_eq spec_deterministic_id_def identifier_string_def)

lemma client_call_ok: "db_faults s = [] \<Longrightarrow> client_call s = (False, s)"
  by (simp add: client_call_def)

lemma client_call_next: "db_faults s = f # fs \<Longrightarrow> client_call s = (f, s\<lparr>db_faults := fs\<rparr>)"
  by (simp add: client_call_def)

lemma search_ok:
  "db_faults s = [] \<Longrightarrow>
   search_existing_page v s =
     ((case pages_with v s of [] \<Rightarrow> None | p # rest \<Rightarrow> Some (pg_id p)), s)"
  by (simp add: search_existing_page_def databases_query_def client_call_ok pages_with_def
      split: list.splits)

lemma search_fails:
  "db_faults s = True # fs \<Longrightarrow> search_existing_page v s = (None, s\<lparr>db_faults := fs\<rparr>)"
  by (simp add: search_existing_page_def databases_query_def client_call_next)

lemma pages_create_ok:
  "db_faults s = [] \<Longrightarrow>
   pages_create props s =
     (Inr (new_page_id (db_next s)),
      s\<lparr>db_pages := db_pages s @ [\<lparr>pg_id = new_page_id (db_next s), pg_properties = props\<rparr>],
        db_next := db_next s + 1\<rparr>)"
  by (simp add: pages_create_def client_call_ok Let_def)



lemma truthy_None: "\<not> truthy None"
  by (simp add: truthy_def)

lemma upsert_create_path:
  assumes "db_faults s = []" "pages_with (spec_deterministic_id agent repo issue d) s = []"
  shows "upsert clk agent repo issue pr d summary s =
    (Inr \<lparr>res_status = ''created'', res_page_id = new_page_id (db_next s),
          res_deterministic_id = spec_deterministic_id agent repo issue d\<rparr>,
     s\<lparr>db_pages := db_pages s @
          [\<lparr>pg_id = new_page_id (db_next s),
            pg_properties = format_properties clk (spec_deterministic_id agent repo issue d)
              agent repo issue pr d summary\<rparr>],
       db_next := db_next s + 1\<rparr>)"
  using assms
  by (simp add: upsert_def generate_deterministic_id_spec search_ok truthy_None create_page_def
      pages_create_ok)


lemma upsert_lookup_fails_create_ok:
  assumes "db_faults s = [True]"
  shows "upsert clk agent repo issue pr d summary s =
    (Inr \<lparr>res_status = ''created'', res_page_id = new_page_id (db_next s),
          res_deterministic_id = spec_deterministic_id agent repo issue d\<rparr>,
     s\<lparr>db_pages := db_pages s @
          [\<lparr>pg_id = new_page_id (db_next s),
            pg_properties = format_properties clk (spec_deterministic_id agent repo issue d)
              agent repo issue pr d summary\<rparr>],
       db_faults := [],
       db_next := db_next s + 1\<rparr>)"
  using assms
  by (simp add: upsert_def generate_deterministic_id_spec search_fails truthy_None create_page_def
      pages_create_ok)










lemma new_page_id_0: "new_page_id 0 = ''page-0''"
  by code_simp

lemma new_page_id_1: "new_page_id (Suc 0) = ''page-1''"
  by code_simp

lemma wf_empty_db: "wf_notion empty_db"
  by (simp add: wf_notion_def empty_db_def)

lemma first_run_on_empty_db:
  "upsert clk agent repo issue pr d summary empty_db =
    (Inr \<lparr>res_status = ''created'', res_page_id = ''page-0'',
          res_deterministic_id = spec_deterministic_id agent repo issue d\<rparr>,
     \<lparr>db_pages = [\<lparr>pg_id = ''page-0'',
            pg_properties = format_properties clk (spec_deterministic_id agent repo issue d)
              agent repo issue pr d summary\<rparr>],
       db_faults = [], db_next = 1\<rparr>)"
proof -
  have "db_faults empty_db = []" by (simp add: empty_db_def)
  moreover have "pages_with (spec_deterministic_id agent repo issue d) empty_db = []"
    by (simp add: pages_with_def empty_db_def)
  ultimately show ?thesis
    by (simp add: upsert_create_path) (simp add: empty_db_def new_page_id_0)
qed



lemma client_call_tl:
  "client_call s = (db_faults s \<noteq> [] \<and> hd (db_faults s), s\<lparr>db_faults := tl (db_faults s)\<rparr>)"
  by (cases "db_faults s") (simp_all add: client_call_def)

text \<open>
  Claim C1, as amended. When the query for an existing page raises, \<open>search_existing_page\<close>
  catches the exception and returns \<open>None\<close>, and \<open>upsert\<close> goes on to the create path: it
  returns \<open>created\<close> with the page just added to the database when the create call succeeds,
  and raises the error of the create call, not that of the query, when the create call
  fails too.
\<close>

theorem upsert_lookup_failure_takes_create_path:
  assumes "db_faults s = True # fs"
  shows "databases_query (spec_deterministic_id agent repo issue d) s =
      (Inl (APIError ''databases.query''), s\<lparr>db_faults := fs\<rparr>) \<and>
    search_existing_page (spec_deterministic_id agent repo issue d) s =
      (None, s\<lparr>db_faults := fs\<rparr>) \<and>
    upsert clk agent repo issue pr d summary s =
      (if fs \<noteq> [] \<and> hd fs
       then (Inl (APIError ''pages.create''), s\<lparr>db_faults := tl fs\<rparr>)
       else (Inr \<lparr>res_status = ''created'', res_page_id = new_page_id (db_next s),
                  res_deterministic_id = spec_deterministic_id agent repo issue d\<rparr>,
             s\<lparr>db_pages := db_pages s @
                  [\<lparr>pg_id = new_page_id (db_next s),
                    pg_properties =
                      format_properties clk (spec_deterministic_id agent repo issue d)
                        agent repo issue pr d summary\<rparr>],
               db_faults := tl fs,
               db_next := db_next s + 1\<rparr>))"
proof -
  have q: "databases_query (spec_deterministic_id agent repo issue d) s =
      (Inl (APIError ''databases.query''), s\<lparr>db_faults := fs\<rparr>)"
    using assms by (simp add: databases_query_def client_call_next)
  have f: "search_existing_page (spec_deterministic_id agent repo issue d) s =
      (None, s\<lparr>db_faults := fs\<rparr>)"
    using assms by (rule search_fails)
  have "upsert clk agent repo issue pr d summary s =
      (if fs \<noteq> [] \<and> hd fs
       then (Inl (APIError ''pages.create''), s\<lparr>db_faults := tl fs\<rparr>)
       else (Inr \<lparr>res_status = ''created'', res_page_id = new_page_id (db_next s),
                  res_deterministic_id = spec_deterministic_id agent repo issue d\<rparr>,
             s\<lparr>db_pages := db_pages s @
                  [\<lparr>pg_id = new_page_id (db_next s),
                    pg_properties =
                      format_properties clk (spec_deterministic_id agent repo issue d)
                        agent repo issue pr d summary\<rparr>],
               db_faults := tl fs,
               db_next := db_next s + 1\<rparr>))"
    by (simp add: upsert_def generate_deterministic_id_spec f truthy_None create_page_def
        pages_create_def client_call_tl Let_def)
  with q f show ?thesis by simp
qed

text \<open>An instance: the query on the empty database raises, the create call succeeds.\<close>

theorem upsert_lookup_failure_takes_create_path_witness:
  "db_faults (empty_db\<lparr>db_faults := [True]\<rparr>) = [True] \<and>
   search_existing_page (spec_deterministic_id ''A-01'' ''PR-CYBR-AGENT-01'' 123 ''2025-01-15'')
     (empty_db\<lparr>db_faults := [True]\<rparr>) = (None, empty_db) \<and>
   upsert sample_clock ''A-01'' ''PR-CYBR-AGENT-01'' 123 None ''2025-01-15'' ''first summary''
     (empty_db\<lparr>db_faults := [True]\<rparr>) =
     (Inr \<lparr>res_status = ''created'', res_page_id = ''page-0'',
           res_deterministic_id =
             spec_deterministic_id ''A-01'' ''PR-CYBR-AGENT-01'' 123 ''2025-01-15''\<rparr>,
      \<lparr>db_pages = [\<lparr>pg_id = ''page-0'',
          pg_properties = format_properties sample_clock
            (spec_deterministic_id ''A-01'' ''PR-CYBR-AGENT-01'' 123 ''2025-01-15'')
            ''A-01'' ''PR-CYBR-AGENT-01'' 123 None ''2025-01-15'' ''first summary''\<rparr>],
        db_faults = [], db_next = 1\<rparr>)"
proof -
  have a: "db_faults (empty_db\<lparr>db_faults := [True]\<rparr>) = [True]"
    by simp
  have n: "new_page_id 0 = ''page-0''"
    by code_simp
  from upsert_lookup_failure_takes_create_path
    [OF a, of "''A-01''" "''PR-CYBR-AGENT-01''" 123 "''2025-01-15''" sample_clock None
      "''first summary''"]
  show ?thesis
    by (simp add: empty_db_def n)
qed

text \<open>
  Claim C1 as stated fails: after a first run has created the page, a second run whose
  query raises does not end in an error; it reports \<open>created\<close> and leaves a second page.
\<close>

theorem lookup_failure_counterexample:
  "fst (upsert sample_clock ''A-01'' ''PR-CYBR-AGENT-01'' 123 None ''2025-01-15''
        ''second summary''
        ((snd (upsert sample_clock ''A-01'' ''PR-CYBR-AGENT-01'' 123 None ''2025-01-15''
           ''first summary'' empty_db))\<lparr>db_faults := [True]\<rparr>)) =
     Inr \<lparr>res_status = ''created'', res_page_id = ''page-1'',
          res_deterministic_id =
            spec_deterministic_id ''A-01'' ''PR-CYBR-AGENT-01'' 123 ''2025-01-15''\<rparr> \<and>
   map pg_id (db_pages
     (snd (upsert sample_clock ''A-01'' ''PR-CYBR-AGENT-01'' 123 None ''2025-01-15''
        ''second summary''
        ((snd (upsert sample_clock ''A-01'' ''PR-CYBR-AGENT-01'' 123 None ''2025-01-15''
           ''first summary'' empty_db))\<lparr>db_faults := [True]\<rparr>)))) = [''page-0'', ''page-1'']"
  by (simp add: first_run_on_empty_db upsert_lookup_fails_create_ok new_page_id_1)

end
